theory Spec2Isabelle
  imports Main "HOL-Library.Sublist"
begin

section \<open>Data model\<close>

text \<open>
  The embed module of the rich editor (\<^verbatim>\<open>QuillEmbedModule.js\<close>) keeps a map
  \<^verbatim>\<open>currentUploads\<close> from a lookup key to the loading blot that stands for a request in
  flight. A key is the URL handed to \<^verbatim>\<open>scrapeMedia\<close> (compared by value) or the
  \<^verbatim>\<open>File\<close> object of an upload (compared by identity, so a file is its identity here).

  The module exists in two revisions. The embedding follows \<^verbatim>\<open>QuillEmbedModule.js\<close>,
  where \<^verbatim>\<open>createLoadingEmbed\<close> and \<^verbatim>\<open>createErrorEmbed\<close> are the uploader's start and
  failure callbacks. Of the other revision it has the failure callback
  \<^verbatim>\<open>onImageUploadFailure\<close>.
\<close>

datatype lookupKey = UrlKey string | FileKey nat

text \<open>\<^verbatim>\<open>RangeStatic\<close>: \<^verbatim>\<open>{ index, length }\<close>.\<close>

record rangeStatic =
  index :: nat
  length_r :: nat

text \<open>The \<^verbatim>\<open>ScrapeResult\<close> typedef, the \<^verbatim>\<open>data\<close> of a scrape response.\<close>

record scrapeResult =
  attributes :: "string list"
  type :: string
  url :: string
  body :: string
  name :: string
  photoUrl :: string
  height :: nat
  width :: nat

record scrapeResponse =
  data :: scrapeResult

text \<open>The response of an upload; only \<^verbatim>\<open>response.data.url\<close> is read.\<close>

record uploadResponse =
  data_url :: string

text \<open>
  An error object. \<^verbatim>\<open>new Error(m)\<close> has the message only; a rejected request also
  carries \<^verbatim>\<open>error.response\<close>, whose \<^verbatim>\<open>data\<close> and \<^verbatim>\<open>data.message\<close> may each be missing.
\<close>

record failureData =
  failure_message :: "string option"

record failureResponse =
  failure_data :: "failureData option"

record jsError =
  message :: string
  response :: "failureResponse option"

definition new_Error :: "string \<Rightarrow> jsError" where
  "new_Error m = \<lparr>message = m, response = None\<rparr>"

text \<open>
  The blots of the document. A loading blot owns the delete callback registered on it; the
  callback of \<^verbatim>\<open>createLoadingEmbed\<close> is a closure over \<^verbatim>\<open>lookupKey\<close> alone, so it is
  stored as that key. The values of the other embeds are the objects handed to
  \<^verbatim>\<open>Parchment.create\<close>.
\<close>

datatype blot =
    TextBlot string
  | EmbedLoading (deleteCallback: "lookupKey option")
  | EmbedLink (link_url: string) (link_name: string) (linkImage: string) (excerpt: string)
  | EmbedImage (image_url: string) (alt: "string option")
  | EmbedVideo scrapeResult
  | EmbedError (errors: "jsError list")

text \<open>
  The state: the module's own fields \<^verbatim>\<open>currentUploads\<close>, \<^verbatim>\<open>lastSelection\<close> and
  \<^verbatim>\<open>pauseSelectionTracking\<close>, and what its collaborators hold: the blots of the Quill
  document in order, each with the identity of its object, Quill's selection, the number of
  blot objects created so far (the next identity), and the messages given to \<^verbatim>\<open>logError\<close>.
\<close>

record quillEmbedModule =
  scroll :: "(nat \<times> blot) list"
  selection :: "rangeStatic option"
  nextBlot :: nat
  errorLog :: "string list"
  currentUploads :: "lookupKey \<rightharpoonup> nat"
  lastSelection :: rangeStatic
  pauseSelectionTracking :: bool

text \<open>The fields as the class declares them, over an empty document.\<close>

definition initial :: quillEmbedModule where
  "initial = \<lparr>scroll = [], selection = None, nextBlot = 0, errorLog = [],
     currentUploads = Map.empty, lastSelection = \<lparr>index = 0, length_r = 0\<rparr>,
     pauseSelectionTracking = False\<rparr>"

datatype exception = TypeError

text \<open>
  A handler either returns, with the state it leaves, or throws; a throw keeps what the
  handler had already changed.
\<close>

type_synonym result = "(exception \<times> quillEmbedModule) + quillEmbedModule"

section \<open>The collaborators\<close>

text \<open>
  Modelled from the spec: the translation lookup \<^verbatim>\<open>t\<close> is imported from
  \<^verbatim>\<open>@core/utility\<close>, outside the module. Localisation is outside the specified core and
  the specification gives the user-facing messages as the literals passed to \<^verbatim>\<open>t\<close>, so
  \<^verbatim>\<open>t\<close> returns its argument.
\<close>

definition t :: "string \<Rightarrow> string" where
  "t s = s"

text \<open>
  Modelled from the spec: \<^verbatim>\<open>logError\<close>, imported from \<^verbatim>\<open>@core/utility\<close>, outside the
  module, records the message and does nothing else.
\<close>

definition logError :: "string \<Rightarrow> quillEmbedModule \<Rightarrow> quillEmbedModule" where
  "logError m s = s\<lparr>errorLog := errorLog s @ [m]\<rparr>"

text \<open>
  Modelled from the spec: the document engine (Quill and Parchment, section 6 of the
  specification) is an external collaborator. The document is the list of its blots.
  \<^verbatim>\<open>Parchment.create\<close> makes a new blot object, not yet in the document;
  \<^verbatim>\<open>quill.insertEmbed(i, ...)\<close> makes one and puts it at position \<^verbatim>\<open>i\<close>, or at the end
  when \<^verbatim>\<open>i\<close> lies beyond it; \<^verbatim>\<open>quill.scroll.descendant(EmbedLoadingBlot, i)\<close> is the
  loading blot at position \<^verbatim>\<open>i\<close>, or \<^verbatim>\<open>null\<close>; \<^verbatim>\<open>blot.replaceWith(other)\<close> puts
  \<^verbatim>\<open>other\<close> in the place of \<^verbatim>\<open>blot\<close>, and does nothing for a blot that is no longer in
  the document; \<^verbatim>\<open>registerDeleteCallback\<close> stores the callback on the loading blot.
  The engine's change notifications reach the module as calls of \<^verbatim>\<open>handleEditorChange\<close>.
\<close>

definition Parchment_create :: "blot \<Rightarrow> quillEmbedModule \<Rightarrow> (nat \<times> blot) \<times> quillEmbedModule" where
  "Parchment_create b s = ((nextBlot s, b), s\<lparr>nextBlot := Suc (nextBlot s)\<rparr>)"

definition insertEmbed :: "nat \<Rightarrow> blot \<Rightarrow> quillEmbedModule \<Rightarrow> quillEmbedModule" where
  "insertEmbed i b s =
     s\<lparr>scroll := take i (scroll s) @ [(nextBlot s, b)] @ drop i (scroll s),
       nextBlot := Suc (nextBlot s)\<rparr>"

definition descendant :: "nat \<Rightarrow> quillEmbedModule \<Rightarrow> nat option" where
  "descendant i s =
     (if i < length (scroll s)
      then (case snd (scroll s ! i) of
              EmbedLoading cb \<Rightarrow> Some (fst (scroll s ! i))
            | _ \<Rightarrow> None)
      else None)"

definition setSelection :: "nat \<Rightarrow> quillEmbedModule \<Rightarrow> quillEmbedModule" where
  "setSelection i s = s\<lparr>selection := Some \<lparr>index = i, length_r = 0\<rparr>\<rparr>"

definition getSelection :: "quillEmbedModule \<Rightarrow> rangeStatic option" where
  "getSelection s = selection s"

fun setCallback :: "lookupKey \<Rightarrow> blot \<Rightarrow> blot" where
  "setCallback k (EmbedLoading cb) = EmbedLoading (Some k)"
| "setCallback k b = b"

definition registerDeleteCallback :: "nat \<Rightarrow> lookupKey \<Rightarrow> quillEmbedModule \<Rightarrow> quillEmbedModule" where
  "registerDeleteCallback n k s =
     s\<lparr>scroll := map (\<lambda>(m, b). if m = n then (m, setCallback k b) else (m, b)) (scroll s)\<rparr>"

definition replaceWith :: "nat \<Rightarrow> nat \<times> blot \<Rightarrow> quillEmbedModule \<Rightarrow> quillEmbedModule" where
  "replaceWith n other s =
     s\<lparr>scroll := map (\<lambda>(m, b). if m = n then other else (m, b)) (scroll s)\<rparr>"

section \<open>The embed module\<close>

subsection \<open>Placeholders\<close>

text \<open>
  The callback that \<^verbatim>\<open>createLoadingEmbed\<close> registers:
  \<^verbatim>\<open>if (this.currentUploads.has(lookupKey)) { this.currentUploads.delete(lookupKey); }\<close>
\<close>

definition deleteCallbackOf :: "lookupKey \<Rightarrow> quillEmbedModule \<Rightarrow> quillEmbedModule" where
  "deleteCallbackOf lookupKey s =
     (if currentUploads s lookupKey \<noteq> None
      then s\<lparr>currentUploads := (currentUploads s)(lookupKey := None)\<rparr>
      else s)"

text \<open>
  Modelled from the spec: \<^verbatim>\<open>EmbedLoadingBlot\<close> is imported from
  \<^verbatim>\<open>./blots/EmbedLoadingBlot\<close>, outside the module. A placeholder's callback is invoked
  when the node is removed from the document (by undo, say) before it is resolved.
  \<open>deleteBlot n\<close> is that removal of the blot \<open>n\<close> from outside; it does nothing when
  \<open>n\<close> is not in the document.
\<close>

definition deleteBlot :: "nat \<Rightarrow> quillEmbedModule \<Rightarrow> quillEmbedModule" where
  "deleteBlot n s =
     (case map_of (scroll s) n of
        None \<Rightarrow> s
      | Some b \<Rightarrow>
          (let s1 = s\<lparr>scroll := filter (\<lambda>(m, b). m \<noteq> n) (scroll s)\<rparr>
           in case b of
                EmbedLoading (Some lookupKey) \<Rightarrow> deleteCallbackOf lookupKey s1
              | _ \<Rightarrow> s1))"

text \<open>
  \<^verbatim>\<open>createLoadingEmbed\<close>. The destructured \<^verbatim>\<open>blot\<close> is \<^verbatim>\<open>null\<close> when no loading blot is
  found at the index; \<^verbatim>\<open>blot.registerDeleteCallback\<close> then throws, after the selection
  was set.
\<close>

definition createLoadingEmbed :: "lookupKey \<Rightarrow> quillEmbedModule \<Rightarrow> result" where
  "createLoadingEmbed lookupKey s =
     (let s1 = s\<lparr>pauseSelectionTracking := True\<rparr>;
          s2 = insertEmbed (index (lastSelection s1)) (EmbedLoading None) s1;
          found = descendant (index (lastSelection s2)) s2;
          s3 = setSelection (index (lastSelection s2) + 1) s2
      in case found of
           None \<Rightarrow> Inl (TypeError, s3)
         | Some blot \<Rightarrow>
             (let s4 = registerDeleteCallback blot lookupKey s3;
                  s5 = s4\<lparr>currentUploads := (currentUploads s4)(lookupKey \<mapsto> blot)\<rparr>
              in Inr (s5\<lparr>pauseSelectionTracking := False\<rparr>)))"

subsection \<open>Resolution\<close>

definition createVideoEmbed :: "scrapeResult \<Rightarrow> quillEmbedModule \<Rightarrow> quillEmbedModule" where
  "createVideoEmbed scrapeResult s =
     (let (linkEmbed, s1) = Parchment_create (EmbedVideo scrapeResult) s;
          completedBlot = currentUploads s1 (UrlKey (url scrapeResult));
          s2 = (case completedBlot of
                  Some blot \<Rightarrow> replaceWith blot linkEmbed s1
                | None \<Rightarrow> s1)
      in s2\<lparr>currentUploads := (currentUploads s2)(UrlKey (url scrapeResult) := None)\<rparr>)"

definition createSiteEmbed :: "scrapeResult \<Rightarrow> quillEmbedModule \<Rightarrow> quillEmbedModule" where
  "createSiteEmbed scrapeResult s =
     (let (linkEmbed, s1) =
            Parchment_create
              (EmbedLink (url scrapeResult) (name scrapeResult)
                 (photoUrl scrapeResult) (body scrapeResult)) s;
          completedBlot = currentUploads s1 (UrlKey (url scrapeResult));
          s2 = (case completedBlot of
                  Some blot \<Rightarrow> replaceWith blot linkEmbed s1
                | None \<Rightarrow> s1)
      in s2\<lparr>currentUploads := (currentUploads s2)(UrlKey (url scrapeResult) := None)\<rparr>)"

definition createExternalImageEmbed :: "scrapeResult \<Rightarrow> quillEmbedModule \<Rightarrow> quillEmbedModule" where
  "createExternalImageEmbed scrapeResult s =
     (let (linkEmbed, s1) =
            Parchment_create
              (EmbedImage (photoUrl scrapeResult) (Some (name scrapeResult))) s;
          completedBlot = currentUploads s1 (UrlKey (url scrapeResult));
          s2 = (case completedBlot of
                  Some blot \<Rightarrow> replaceWith blot linkEmbed s1
                | None \<Rightarrow> s1)
      in s2\<lparr>currentUploads := (currentUploads s2)(UrlKey (url scrapeResult) := None)\<rparr>)"

text \<open>
  \<^verbatim>\<open>createErrorEmbed\<close>; \<open>None\<close> is a \<^verbatim>\<open>lookupKey\<close> that is \<^verbatim>\<open>null\<close> or
  \<^verbatim>\<open>undefined\<close>.
\<close>

definition createErrorEmbed :: "lookupKey option \<Rightarrow> jsError \<Rightarrow> quillEmbedModule \<Rightarrow> quillEmbedModule" where
  "createErrorEmbed lookupKey error s =
     (let s1 = logError (message error) s
      in case lookupKey of
           None \<Rightarrow> insertEmbed (index (lastSelection s1)) (EmbedError [error]) s1
         | Some k \<Rightarrow>
             (let (errorBlot, s2) = Parchment_create (EmbedError [error]) s1;
                  loadingBlot = currentUploads s2 k;
                  s3 = (case loadingBlot of
                          Some blot \<Rightarrow> replaceWith blot errorBlot s2
                        | None \<Rightarrow> s2)
              in s3\<lparr>currentUploads := (currentUploads s3)(k := None)\<rparr>))"

definition onImageUploadSuccess :: "nat \<Rightarrow> uploadResponse \<Rightarrow> quillEmbedModule \<Rightarrow> quillEmbedModule" where
  "onImageUploadSuccess file res s =
     (let (imageEmbed, s1) = Parchment_create (EmbedImage (data_url res) None) s;
          completedBlot = currentUploads s1 (FileKey file);
          s2 = (case completedBlot of
                  Some blot \<Rightarrow> replaceWith blot imageEmbed s1
                | None \<Rightarrow> s1)
      in s2\<lparr>currentUploads := (currentUploads s2)(FileKey file := None)\<rparr>)"

text \<open>
  \<^verbatim>\<open>onImageUploadFailure\<close>, the failure handler of the module's other revision. After the
  guarded \<^verbatim>\<open>replaceWith\<close> it calls \<^verbatim>\<open>loadingBlot.replaceWith(errorBlot)\<close> once more, with
  no guard: on \<^verbatim>\<open>undefined\<close> that throws.
\<close>

definition onImageUploadFailure :: "nat option \<Rightarrow> jsError \<Rightarrow> quillEmbedModule \<Rightarrow> result" where
  "onImageUploadFailure file error s =
     (let s1 = logError (message error) s
      in case file of
           None \<Rightarrow> Inr (insertEmbed (index (lastSelection s1)) (EmbedError [error]) s1)
         | Some f \<Rightarrow>
             (let (errorBlot, s2) = Parchment_create (EmbedError [error]) s1;
                  loadingBlot = currentUploads s2 (FileKey f);
                  s3 = (case loadingBlot of
                          Some blot \<Rightarrow> replaceWith blot errorBlot s2
                        | None \<Rightarrow> s2)
              in case loadingBlot of
                   None \<Rightarrow> Inl (TypeError, s3)
                 | Some blot \<Rightarrow>
                     (let s4 = replaceWith blot errorBlot s3
                      in Inr (s4\<lparr>currentUploads := (currentUploads s4)(FileKey f := None)\<rparr>))))"

subsection \<open>The scrape\<close>

text \<open>
  \<^verbatim>\<open>scrapeMedia(url)\<close> creates the placeholder and posts the request; the two
  continuations of the request run later, \<open>scrapeMedia_then\<close> on a response and
  \<open>scrapeMedia_catch\<close> on a failure.
\<close>

definition scrapeMedia :: "string \<Rightarrow> quillEmbedModule \<Rightarrow> result" where
  "scrapeMedia u s = createLoadingEmbed (UrlKey u) s"

definition scrapeMedia_then :: "string \<Rightarrow> scrapeResponse \<Rightarrow> quillEmbedModule \<Rightarrow> quillEmbedModule" where
  "scrapeMedia_then u result s =
     (if type (data result) = ''site'' then createSiteEmbed (data result) s
      else if type (data result) = ''image'' then createExternalImageEmbed (data result) s
      else createErrorEmbed (Some (UrlKey u))
             (new_Error (t ''That type of embed is not currently supported.'')) s)"

text \<open>
  The value of \<^verbatim>\<open>error.response && error.response.data && error.response.data.message\<close>
  when it is truthy: a missing part or the empty string is not.
\<close>

definition responseMessage :: "jsError \<Rightarrow> string option" where
  "responseMessage error =
     (case response error of
        None \<Rightarrow> None
      | Some r \<Rightarrow>
          (case failure_data r of
             None \<Rightarrow> None
           | Some d \<Rightarrow>
               (case failure_message d of
                  None \<Rightarrow> None
                | Some m \<Rightarrow> if m = [] then None else Some m)))"

definition scrapeMedia_catch :: "string \<Rightarrow> jsError \<Rightarrow> quillEmbedModule \<Rightarrow> quillEmbedModule" where
  "scrapeMedia_catch u error s =
     (case responseMessage error of
        Some msg \<Rightarrow>
          (if prefix ''Failed to load URL'' msg
           then createErrorEmbed (Some (UrlKey u))
                  (new_Error (t ''There was an error processing that embed link.'')) s
           else createErrorEmbed (Some (UrlKey u)) (new_Error msg) s)
      | None \<Rightarrow> createErrorEmbed (Some (UrlKey u)) error s)"

subsection \<open>Selection tracking\<close>

text \<open>
  The second argument of \<^verbatim>\<open>handleEditorChange\<close>: nothing (\<^verbatim>\<open>null\<close>), a range, or an
  object with no numeric \<^verbatim>\<open>index\<close> (the delta of a text change).
\<close>

datatype changeArg = NoArg | RangeArg rangeStatic | OtherArg

definition handleEditorChange :: "string \<Rightarrow> changeArg \<Rightarrow> quillEmbedModule \<Rightarrow> quillEmbedModule" where
  "handleEditorChange ty rng s =
     (if rng \<noteq> NoArg \<and> \<not> pauseSelectionTracking s
      then (let rng' = (case rng of RangeArg r \<Rightarrow> Some r | _ \<Rightarrow> getSelection s)
            in case rng' of Some r \<Rightarrow> s\<lparr>lastSelection := r\<rparr> | None \<Rightarrow> s)
      else s)"

subsection \<open>Events\<close>

text \<open>
  What can happen to the module, one event at a time on the UI loop: a URL is submitted, a
  scrape settles, the uploader reports the start, success or failure of a file, a blot is
  deleted from outside, the editor reports a change. The uploader's callbacks are
  \<^verbatim>\<open>createLoadingEmbed\<close>, \<^verbatim>\<open>onImageUploadSuccess\<close> and \<^verbatim>\<open>createErrorEmbed\<close>.
\<close>

datatype event =
    Submit string
  | ScrapeResolved string scrapeResponse
  | ScrapeRejected string jsError
  | UploadStart nat
  | UploadSuccess nat uploadResponse
  | UploadFailure "nat option" jsError
  | BlotDeleted nat
  | EditorChange string changeArg

fun step :: "event \<Rightarrow> quillEmbedModule \<Rightarrow> result" where
  "step (Submit u) s = scrapeMedia u s"
| "step (ScrapeResolved u r) s = Inr (scrapeMedia_then u r s)"
| "step (ScrapeRejected u e) s = Inr (scrapeMedia_catch u e s)"
| "step (UploadStart f) s = createLoadingEmbed (FileKey f) s"
| "step (UploadSuccess f r) s = Inr (onImageUploadSuccess f r s)"
| "step (UploadFailure f e) s = Inr (createErrorEmbed (map_option FileKey f) e s)"
| "step (BlotDeleted n) s = Inr (deleteBlot n s)"
| "step (EditorChange ty a) s = Inr (handleEditorChange ty a s)"

text \<open>The state a handler leaves, whether it returned or threw.\<close>

fun stateOf :: "result \<Rightarrow> quillEmbedModule" where
  "stateOf (Inl (e, s)) = s"
| "stateOf (Inr s) = s"

fun run :: "event list \<Rightarrow> quillEmbedModule \<Rightarrow> quillEmbedModule" where
  "run [] s = s"
| "run (e # es) s = run es (stateOf (step e s))"

section \<open>Well-formed states and the registry invariant\<close>

text \<open>
  Blot identities are unique in the document and below the next one to be handed out.
\<close>

definition wellFormed :: "quillEmbedModule \<Rightarrow> bool" where
  "wellFormed s \<longleftrightarrow>
     distinct (map fst (scroll s)) \<and> list_all (\<lambda>(n, b). n < nextBlot s) (scroll s)"

text \<open>
  The two halves of the registry invariant. Sound: the blot stored under a key is in the
  document, still a loading blot, and its callback is the one for that key. Complete: every
  loading blot of the document has a callback and is the blot stored under the callback's
  key.
\<close>

definition registrySound :: "quillEmbedModule \<Rightarrow> bool" where
  "registrySound s \<longleftrightarrow>
     (\<forall>k n. currentUploads s k = Some n \<longrightarrow> (n, EmbedLoading (Some k)) \<in> set (scroll s))"

definition registryComplete :: "quillEmbedModule \<Rightarrow> bool" where
  "registryComplete s \<longleftrightarrow>
     list_all (\<lambda>(n, b). case b of
                 EmbedLoading cb \<Rightarrow>
                   (case cb of Some k \<Rightarrow> currentUploads s k = Some n | None \<Rightarrow> False)
               | _ \<Rightarrow> True) (scroll s)"

text \<open>
  The shape the five constructors share: make the result blot, put it in the place of the
  blot stored under the key, if any, and delete the key.
\<close>

definition resolved :: "lookupKey \<Rightarrow> blot \<Rightarrow> quillEmbedModule \<Rightarrow> quillEmbedModule" where
  "resolved k b s =
     (case currentUploads s k of
        Some n \<Rightarrow> (replaceWith n (nextBlot s, b) s)
                    \<lparr>nextBlot := Suc (nextBlot s), currentUploads := (currentUploads s)(k := None)\<rparr>
      | None \<Rightarrow> s\<lparr>nextBlot := Suc (nextBlot s)\<rparr>)"

text \<open>The key under which an event creates a placeholder, and that key not being in use.\<close>

fun creates :: "event \<Rightarrow> lookupKey option" where
  "creates (Submit u) = Some (UrlKey u)"
| "creates (UploadStart f) = Some (FileKey f)"
| "creates e = None"

definition freshKey :: "event \<Rightarrow> quillEmbedModule \<Rightarrow> bool" where
  "freshKey e s \<longleftrightarrow> (case creates e of None \<Rightarrow> True | Some k \<Rightarrow> currentUploads s k = None)"

text \<open>An event whose handler returns; of the handlers, \<^verbatim>\<open>createLoadingEmbed\<close> alone can throw.\<close>

definition returns :: "event \<Rightarrow> quillEmbedModule \<Rightarrow> bool" where
  "returns e s \<longleftrightarrow> (case step e s of Inl x \<Rightarrow> False | Inr s' \<Rightarrow> True)"

text \<open>
  A sequence of events each of which returns and none of which creates a placeholder under
  a key in use.
\<close>

fun freshKeys :: "event list \<Rightarrow> quillEmbedModule \<Rightarrow> bool" where
  "freshKeys [] s = True"
| "freshKeys (e # es) s = (freshKey e s \<and> returns e s \<and> freshKeys es (stateOf (step e s)))"

section \<open>Lemmas on the collaborators and the constructors\<close>

subsection \<open>Reading the invariants\<close>

lemma wellFormedD:
  "wellFormed s \<Longrightarrow> (n, b) \<in> set (scroll s) \<Longrightarrow> n < nextBlot s"
  by (auto simp: wellFormed_def list_all_iff)

lemma wellFormedI:
  "distinct (map fst (scroll s)) \<Longrightarrow> (\<And>n b. (n, b) \<in> set (scroll s) \<Longrightarrow> n < nextBlot s) \<Longrightarrow> wellFormed s"
  by (auto simp: wellFormed_def list_all_iff)

lemma wellFormed_distinct: "wellFormed s \<Longrightarrow> distinct (map fst (scroll s))"
  by (simp add: wellFormed_def)

lemma wellFormed_fresh: "wellFormed s \<Longrightarrow> nextBlot s \<notin> fst ` set (scroll s)"
  by (auto dest: wellFormedD)

lemma wellFormed_unique:
  "wellFormed s \<Longrightarrow> (n, b) \<in> set (scroll s) \<Longrightarrow> (n, b') \<in> set (scroll s) \<Longrightarrow> b = b'"
  by (auto simp: wellFormed_def dest: eq_key_imp_eq_value)

lemma wellFormed_cong:
  "scroll s' = scroll s \<Longrightarrow> nextBlot s' = nextBlot s \<Longrightarrow> wellFormed s' = wellFormed s"
  by (simp add: wellFormed_def)

lemma registrySoundD:
  "registrySound s \<Longrightarrow> currentUploads s k = Some n \<Longrightarrow> (n, EmbedLoading (Some k)) \<in> set (scroll s)"
  by (simp add: registrySound_def)

lemma registrySound_cong:
  "scroll s' = scroll s \<Longrightarrow> currentUploads s' = currentUploads s \<Longrightarrow> registrySound s' = registrySound s"
  by (simp add: registrySound_def)

lemma registryComplete_iff:
  "registryComplete s \<longleftrightarrow>
     (\<forall>n cb. (n, EmbedLoading cb) \<in> set (scroll s) \<longrightarrow>
        (\<exists>k. cb = Some k \<and> currentUploads s k = Some n))"
proof
  assume c: "registryComplete s"
  show "\<forall>n cb. (n, EmbedLoading cb) \<in> set (scroll s) \<longrightarrow>
        (\<exists>k. cb = Some k \<and> currentUploads s k = Some n)"
  proof (intro allI impI)
    fix n cb assume "(n, EmbedLoading cb) \<in> set (scroll s)"
    then have "case cb of Some k \<Rightarrow> currentUploads s k = Some n | None \<Rightarrow> False"
      using c by (force simp: registryComplete_def list_all_iff)
    then show "\<exists>k. cb = Some k \<and> currentUploads s k = Some n"
      by (cases cb) simp_all
  qed
next
  assume "\<forall>n cb. (n, EmbedLoading cb) \<in> set (scroll s) \<longrightarrow>
        (\<exists>k. cb = Some k \<and> currentUploads s k = Some n)"
  then show "registryComplete s"
    by (fastforce simp: registryComplete_def list_all_iff split: blot.splits option.splits)
qed

lemma registryCompleteD:
  "registryComplete s \<Longrightarrow> (n, EmbedLoading (Some k)) \<in> set (scroll s) \<Longrightarrow> currentUploads s k = Some n"
  by (auto simp: registryComplete_iff)

lemma registryComplete_callback:
  "registryComplete s \<Longrightarrow> (n, EmbedLoading cb) \<in> set (scroll s) \<Longrightarrow>
   \<exists>k. cb = Some k \<and> currentUploads s k = Some n"
  by (simp add: registryComplete_iff)

lemma registryCompleteI:
  "(\<And>n cb. (n, EmbedLoading cb) \<in> set (scroll s) \<Longrightarrow>
      \<exists>k. cb = Some k \<and> currentUploads s k = Some n) \<Longrightarrow> registryComplete s"
  by (simp add: registryComplete_iff)

lemma registryComplete_cong:
  "scroll s' = scroll s \<Longrightarrow> currentUploads s' = currentUploads s \<Longrightarrow> registryComplete s' = registryComplete s"
  by (simp add: registryComplete_iff)

lemma initial_invariants:
  "wellFormed initial" "registrySound initial" "registryComplete initial"
  by (simp_all add: initial_def wellFormed_def registrySound_def registryComplete_def)

subsection \<open>Fields that an operation leaves alone\<close>

lemma replaceWith_fields [simp]:
  "nextBlot (replaceWith n other s) = nextBlot s"
  "currentUploads (replaceWith n other s) = currentUploads s"
  "errorLog (replaceWith n other s) = errorLog s"
  "lastSelection (replaceWith n other s) = lastSelection s"
  "selection (replaceWith n other s) = selection s"
  "pauseSelectionTracking (replaceWith n other s) = pauseSelectionTracking s"
  by (simp_all add: replaceWith_def)

lemma insertEmbed_fields [simp]:
  "nextBlot (insertEmbed i b s) = Suc (nextBlot s)"
  "currentUploads (insertEmbed i b s) = currentUploads s"
  "errorLog (insertEmbed i b s) = errorLog s"
  "lastSelection (insertEmbed i b s) = lastSelection s"
  "selection (insertEmbed i b s) = selection s"
  "pauseSelectionTracking (insertEmbed i b s) = pauseSelectionTracking s"
  by (simp_all add: insertEmbed_def)

lemma handleEditorChange_fields [simp]:
  "scroll (handleEditorChange ty a s) = scroll s"
  "nextBlot (handleEditorChange ty a s) = nextBlot s"
  "currentUploads (handleEditorChange ty a s) = currentUploads s"
  "errorLog (handleEditorChange ty a s) = errorLog s"
  by (simp_all add: handleEditorChange_def Let_def split: option.splits)

lemma logError_fields [simp]:
  "scroll (logError m s) = scroll s"
  "nextBlot (logError m s) = nextBlot s"
  "currentUploads (logError m s) = currentUploads s"
  "lastSelection (logError m s) = lastSelection s"
  "errorLog (logError m s) = errorLog s @ [m]"
  by (simp_all add: logError_def)

lemma logError_wellFormed [simp]: "wellFormed (logError m s) = wellFormed s"
  by (rule wellFormed_cong) simp_all

lemma logError_sound [simp]: "registrySound (logError m s) = registrySound s"
  by (rule registrySound_cong) simp_all

lemma logError_complete [simp]: "registryComplete (logError m s) = registryComplete s"
  by (rule registryComplete_cong) simp_all

subsection \<open>Replacing a blot\<close>

lemma in_replaceWith:
  "(j, c) \<in> set (scroll (replaceWith n (m, b') s)) \<longleftrightarrow>
     ((j, c) \<in> set (scroll s) \<and> j \<noteq> n) \<or> ((j, c) = (m, b') \<and> n \<in> fst ` set (scroll s))"
  by (force simp: replaceWith_def split: if_splits)

lemma fst_replaceWith:
  "map fst (scroll (replaceWith n (m, b') s)) = map (\<lambda>j. if j = n then m else j) (map fst (scroll s))"
  by (simp add: replaceWith_def comp_def case_prod_beta if_distrib cong: if_cong)

lemma distinct_replace_fresh:
  "distinct xs \<Longrightarrow> m \<notin> set xs \<Longrightarrow> distinct (map (\<lambda>j. if j = n then m else j) xs)"
  by (induction xs) auto

lemma replaceWith_absent:
  "n \<notin> fst ` set (scroll s) \<Longrightarrow> replaceWith n other s = s"
proof -
  assume a: "n \<notin> fst ` set (scroll s)"
  have "map (\<lambda>(m, b). if m = n then other else (m, b)) (scroll s) = scroll s"
    by (rule map_idI) (use a in force)
  then show ?thesis by (simp add: replaceWith_def)
qed

lemma replaceWith_at:
  "distinct (map fst (scroll s)) \<Longrightarrow> i < length (scroll s) \<Longrightarrow> fst (scroll s ! i) = n \<Longrightarrow>
   scroll (replaceWith n other s) = (scroll s)[i := other]"
proof -
  assume d: "distinct (map fst (scroll s))" and i: "i < length (scroll s)" and n: "fst (scroll s ! i) = n"
  show ?thesis
  proof (rule nth_equalityI)
    show "length (scroll (replaceWith n other s)) = length ((scroll s)[i := other])"
      by (simp add: replaceWith_def)
  next
    fix j assume "j < length (scroll (replaceWith n other s))"
    then have j: "j < length (scroll s)" by (simp add: replaceWith_def)
    have "fst (scroll s ! j) = n \<longleftrightarrow> j = i"
      using d i j n by (metis length_map nth_eq_iff_index_eq nth_map)
    then show "scroll (replaceWith n other s) ! j = (scroll s)[i := other] ! j"
      using j i by (auto simp: replaceWith_def case_prod_beta)
  qed
qed

subsection \<open>Inserting a blot\<close>

lemma set_insertAt: "set (take i xs @ x # drop i xs) = insert x (set xs)"
proof -
  have "set (take i xs) \<union> set (drop i xs) = set xs"
    by (metis append_take_drop_id set_append)
  then show ?thesis by auto
qed

lemma distinct_insertAt:
  assumes "distinct (map fst xs)" and "fst x \<notin> fst ` set xs"
  shows "distinct (map fst (take i xs @ x # drop i xs))"
proof -
  have d: "distinct (take i (map fst xs) @ drop i (map fst xs))"
    using assms(1) by simp
  have "fst x \<notin> set (take i (map fst xs))" "fst x \<notin> set (drop i (map fst xs))"
    using assms(2) by (auto dest: in_set_takeD in_set_dropD)
  then show ?thesis
    using d by (auto simp: take_map drop_map)
qed

lemma scroll_insertEmbed:
  "scroll (insertEmbed i b s) = take i (scroll s) @ (nextBlot s, b) # drop i (scroll s)"
  by (simp add: insertEmbed_def)

lemma in_insertEmbed:
  "(j, c) \<in> set (scroll (insertEmbed i b s)) \<longleftrightarrow> (j, c) = (nextBlot s, b) \<or> (j, c) \<in> set (scroll s)"
  by (simp only: scroll_insertEmbed set_insertAt insert_iff)

lemma insertEmbed_wellFormed:
  assumes "wellFormed s" shows "wellFormed (insertEmbed i b s)"
proof (rule wellFormedI)
  have "distinct (map fst (take i (scroll s) @ (nextBlot s, b) # drop i (scroll s)))"
    using assms by (intro distinct_insertAt) (simp_all add: wellFormed_distinct wellFormed_fresh)
  then show "distinct (map fst (scroll (insertEmbed i b s)))"
    by (simp add: insertEmbed_def)
next
  fix n c assume "(n, c) \<in> set (scroll (insertEmbed i b s))"
  then show "n < nextBlot (insertEmbed i b s)"
    using assms by (auto simp: in_insertEmbed less_Suc_eq dest: wellFormedD)
qed

lemma insertEmbed_sound:
  "registrySound s \<Longrightarrow> registrySound (insertEmbed i b s)"
  by (simp add: registrySound_def in_insertEmbed)

lemma insertEmbed_complete:
  assumes "registryComplete s" and "\<forall>cb. b \<noteq> EmbedLoading cb"
  shows "registryComplete (insertEmbed i b s)"
proof (rule registryCompleteI)
  fix n cb assume "(n, EmbedLoading cb) \<in> set (scroll (insertEmbed i b s))"
  then have "(n, EmbedLoading cb) \<in> set (scroll s)"
    using assms(2) by (auto simp: in_insertEmbed)
  then show "\<exists>k. cb = Some k \<and> currentUploads (insertEmbed i b s) k = Some n"
    using assms(1) by (simp add: registryComplete_callback)
qed

subsection \<open>The constructors in their common shape\<close>

text \<open>Each constructor is \<open>resolved\<close> at its key and its result blot.\<close>

lemma absent_delete: "currentUploads s k = None \<Longrightarrow> s\<lparr>currentUploads := (currentUploads s)(k := None)\<rparr> = s"
  by (simp add: fun_upd_idem)

lemma createSiteEmbed_resolved:
  "createSiteEmbed d s = resolved (UrlKey (url d)) (EmbedLink (url d) (name d) (photoUrl d) (body d)) s"
  by (simp add: createSiteEmbed_def resolved_def Parchment_create_def replaceWith_def fun_upd_idem
           split: option.splits)

lemma createExternalImageEmbed_resolved:
  "createExternalImageEmbed d s = resolved (UrlKey (url d)) (EmbedImage (photoUrl d) (Some (name d))) s"
  by (simp add: createExternalImageEmbed_def resolved_def Parchment_create_def replaceWith_def fun_upd_idem
           split: option.splits)

lemma createVideoEmbed_resolved:
  "createVideoEmbed d s = resolved (UrlKey (url d)) (EmbedVideo d) s"
  by (simp add: createVideoEmbed_def resolved_def Parchment_create_def replaceWith_def fun_upd_idem
           split: option.splits)

lemma onImageUploadSuccess_resolved:
  "onImageUploadSuccess f r s = resolved (FileKey f) (EmbedImage (data_url r) None) s"
  by (simp add: onImageUploadSuccess_def resolved_def Parchment_create_def replaceWith_def fun_upd_idem
           split: option.splits)

lemma createErrorEmbed_resolved:
  "createErrorEmbed (Some k) e s = resolved k (EmbedError [e]) (logError (message e) s)"
  by (simp add: createErrorEmbed_def resolved_def Parchment_create_def replaceWith_def fun_upd_idem
           logError_def Let_def split: option.splits)

lemma createErrorEmbed_null:
  "createErrorEmbed None e s = insertEmbed (index (lastSelection s)) (EmbedError [e]) (logError (message e) s)"
  by (simp add: createErrorEmbed_def logError_def)

lemma resolved_absent:
  "currentUploads s k = None \<Longrightarrow> resolved k b s = s\<lparr>nextBlot := Suc (nextBlot s)\<rparr>"
  by (simp add: resolved_def)

lemma resolved_present:
  assumes wf: "wellFormed s" and k: "currentUploads s k = Some n"
    and i: "i < length (scroll s)" and n: "fst (scroll s ! i) = n"
  shows "resolved k b s =
     s\<lparr>scroll := (scroll s)[i := (nextBlot s, b)], nextBlot := Suc (nextBlot s),
       currentUploads := (currentUploads s)(k := None)\<rparr>"
proof -
  have "scroll (replaceWith n (nextBlot s, b) s) = (scroll s)[i := (nextBlot s, b)]"
    using wellFormed_distinct [OF wf] i n by (rule replaceWith_at)
  then have "replaceWith n (nextBlot s, b) s = s\<lparr>scroll := (scroll s)[i := (nextBlot s, b)]\<rparr>"
    by (simp add: replaceWith_def)
  then show ?thesis
    using k by (simp add: resolved_def)
qed

lemma resolved_deletes: "currentUploads (resolved k b s) k = None"
  by (simp add: resolved_def split: option.splits)

lemma resolution_deletes_key:
  "currentUploads (createErrorEmbed (Some k) e s) k = None"
  "currentUploads (onImageUploadSuccess f res s) (FileKey f) = None"
  "currentUploads (createSiteEmbed d s) (UrlKey (url d)) = None"
  "currentUploads (createExternalImageEmbed d s) (UrlKey (url d)) = None"
  "currentUploads (createVideoEmbed d s) (UrlKey (url d)) = None"
  by (simp_all add: createErrorEmbed_resolved onImageUploadSuccess_resolved
        createSiteEmbed_resolved createExternalImageEmbed_resolved createVideoEmbed_resolved
        resolved_deletes)

lemma resolved_wellFormed:
  assumes "wellFormed s" shows "wellFormed (resolved k b s)"
proof (cases "currentUploads s k")
  case None
  then show ?thesis
    using assms by (auto simp: resolved_def wellFormed_def list_all_iff)
next
  case (Some n)
  have f: "nextBlot s \<notin> set (map fst (scroll s))"
    using assms by (auto simp: wellFormed_def list_all_iff)
  have "distinct (map fst (scroll (replaceWith n (nextBlot s, b) s)))"
    unfolding fst_replaceWith
    using assms f by (intro distinct_replace_fresh) (simp_all add: wellFormed_def)
  moreover have "\<forall>(j, c) \<in> set (scroll (replaceWith n (nextBlot s, b) s)). j < Suc (nextBlot s)"
    using assms by (auto simp: in_replaceWith wellFormed_def list_all_iff less_Suc_eq)
  ultimately show ?thesis
    using Some by (simp add: resolved_def wellFormed_def list_all_iff)
qed

lemma resolved_sound:
  assumes wf: "wellFormed s" and snd: "registrySound s"
  shows "registrySound (resolved k b s)"
proof (cases "currentUploads s k")
  case None
  then show ?thesis
    using snd by (simp add: resolved_def registrySound_def)
next
  case (Some n)
  have "(n', EmbedLoading (Some k')) \<in> set (scroll (replaceWith n (nextBlot s, b) s))"
    if k': "k' \<noteq> k" and r: "currentUploads s k' = Some n'" for k' n'
  proof -
    have a: "(n', EmbedLoading (Some k')) \<in> set (scroll s)"
      using snd r by (simp add: registrySound_def)
    have b: "(n, EmbedLoading (Some k)) \<in> set (scroll s)"
      using snd Some by (simp add: registrySound_def)
    have "n' \<noteq> n"
      using wellFormed_unique [OF wf a] b k' by auto
    then show ?thesis
      using a by (simp add: in_replaceWith)
  qed
  then show ?thesis
    using Some by (simp add: resolved_def registrySound_def)
qed

lemma resolved_complete:
  assumes cmp: "registryComplete s" and b: "\<forall>cb. b \<noteq> EmbedLoading cb"
  shows "registryComplete (resolved k b s)"
proof (cases "currentUploads s k")
  case None
  show ?thesis
  proof (rule registryCompleteI)
    fix j cb
    assume "(j, EmbedLoading cb) \<in> set (scroll (resolved k b s))"
    then show "\<exists>k'. cb = Some k' \<and> currentUploads (resolved k b s) k' = Some j"
      using None cmp by (simp add: resolved_def registryComplete_callback)
  qed
next
  case (Some n)
  show ?thesis
  proof (rule registryCompleteI)
    fix j cb
    assume "(j, EmbedLoading cb) \<in> set (scroll (resolved k b s))"
    then have a: "(j, EmbedLoading cb) \<in> set (scroll s)" and jn: "j \<noteq> n"
      using Some b by (auto simp: resolved_def in_replaceWith)
    obtain k' where cb: "cb = Some k'" and r: "currentUploads s k' = Some j"
      using registryComplete_callback [OF cmp a] by blast
    have "k' \<noteq> k"
      using Some jn r by auto
    then have "currentUploads (resolved k b s) k' = Some j"
      using r Some by (simp add: resolved_def)
    then show "\<exists>k'. cb = Some k' \<and> currentUploads (resolved k b s) k' = Some j"
      using cb by blast
  qed
qed

subsection \<open>The effect of createErrorEmbed\<close>

lemma createErrorEmbed_logs:
  "errorLog (createErrorEmbed K e s) = errorLog s @ [message e]"
  by (cases K) (simp_all add: createErrorEmbed_null createErrorEmbed_resolved resolved_def
                  split: option.splits)

lemma createErrorEmbed_deletes:
  "currentUploads (createErrorEmbed (Some k) e s) = (currentUploads s)(k := None)"
  by (simp add: createErrorEmbed_resolved resolved_def fun_upd_idem split: option.splits)

lemma createErrorEmbed_absent:
  "currentUploads s k = None \<Longrightarrow>
   createErrorEmbed (Some k) e s = s\<lparr>errorLog := errorLog s @ [message e], nextBlot := Suc (nextBlot s)\<rparr>"
  by (simp add: createErrorEmbed_resolved resolved_absent logError_def)

lemma createErrorEmbed_present:
  assumes "wellFormed s" and "currentUploads s k = Some n"
    and "i < length (scroll s)" and "fst (scroll s ! i) = n"
  shows "scroll (createErrorEmbed (Some k) e s) = (scroll s)[i := (nextBlot s, EmbedError [e])]"
  using resolved_present [of "logError (message e) s" k n i "EmbedError [e]"] assms
  by (simp add: createErrorEmbed_resolved)

lemma createErrorEmbed_adds:
  "x \<in> set (scroll (createErrorEmbed K e s)) \<Longrightarrow>
   x \<in> set (scroll s) \<or> x = (nextBlot s, EmbedError [e])"
  by (cases K; cases x)
     (auto simp: createErrorEmbed_null createErrorEmbed_resolved resolved_def in_insertEmbed
        in_replaceWith split: option.splits)

lemma createErrorEmbed_wellFormed:
  "wellFormed s \<Longrightarrow> wellFormed (createErrorEmbed K e s)"
  by (cases K)
     (simp_all add: createErrorEmbed_null createErrorEmbed_resolved
        insertEmbed_wellFormed resolved_wellFormed)

lemma createErrorEmbed_sound:
  "wellFormed s \<Longrightarrow> registrySound s \<Longrightarrow> registrySound (createErrorEmbed K e s)"
  by (cases K)
     (simp_all add: createErrorEmbed_null createErrorEmbed_resolved
        insertEmbed_sound resolved_sound)

lemma createErrorEmbed_complete:
  "registryComplete s \<Longrightarrow> registryComplete (createErrorEmbed K e s)"
  by (cases K)
     (simp_all add: createErrorEmbed_null createErrorEmbed_resolved
        insertEmbed_complete resolved_complete)

subsection \<open>Creating a placeholder\<close>

text \<open>
  \<^verbatim>\<open>createLoadingEmbed\<close> returns when the last selection lies inside the document, and throws otherwise.
\<close>

lemma map_callback_fresh:
  "\<forall>(j, b) \<in> set xs. j \<noteq> m \<Longrightarrow>
   map (\<lambda>(j, b). if j = m then (j, setCallback k b) else (j, b)) xs = xs"
  by (rule map_idI) auto

lemma createLoadingEmbed_returns:
  assumes wf: "wellFormed s" and i: "index (lastSelection s) \<le> length (scroll s)"
  shows "createLoadingEmbed k s =
     Inr (s\<lparr>scroll := take (index (lastSelection s)) (scroll s)
                        @ (nextBlot s, EmbedLoading (Some k))
                        # drop (index (lastSelection s)) (scroll s),
            selection := Some \<lparr>index = index (lastSelection s) + 1, length_r = 0\<rparr>,
            nextBlot := Suc (nextBlot s),
            currentUploads := (currentUploads s)(k \<mapsto> nextBlot s),
            pauseSelectionTracking := False\<rparr>)"
proof -
  let ?i = "index (lastSelection s)"
  have fresh: "\<forall>(j, b) \<in> set (scroll s). j \<noteq> nextBlot s"
    using wf by (auto simp: wellFormed_def list_all_iff)
  have t: "map (\<lambda>(j, b). if j = nextBlot s then (j, setCallback k b) else (j, b)) (take ?i (scroll s)) = take ?i (scroll s)"
    by (rule map_callback_fresh) (use fresh in \<open>auto dest: in_set_takeD\<close>)
  have d: "map (\<lambda>(j, b). if j = nextBlot s then (j, setCallback k b) else (j, b)) (drop ?i (scroll s)) = drop ?i (scroll s)"
    by (rule map_callback_fresh) (use fresh in \<open>auto dest: in_set_dropD\<close>)
  have n: "(take ?i (scroll s) @ (nextBlot s, EmbedLoading None) # drop ?i (scroll s)) ! ?i = (nextBlot s, EmbedLoading None)"
    using i by (simp add: nth_append)
  show ?thesis
    using i n t d
    by (simp add: createLoadingEmbed_def insertEmbed_def descendant_def setSelection_def
          registerDeleteCallback_def Let_def)
qed

lemma createLoadingEmbed_throws:
  assumes i: "length (scroll s) < index (lastSelection s)"
  shows "createLoadingEmbed k s =
     Inl (TypeError, s\<lparr>scroll := scroll s @ [(nextBlot s, EmbedLoading None)],
            selection := Some \<lparr>index = index (lastSelection s) + 1, length_r = 0\<rparr>,
            nextBlot := Suc (nextBlot s), pauseSelectionTracking := True\<rparr>)"
  using i by (simp add: createLoadingEmbed_def insertEmbed_def descendant_def setSelection_def Let_def)

lemma createLoadingEmbed_registers:
  assumes "wellFormed s" and "index (lastSelection s) \<le> length (scroll s)"
  shows "\<exists>s'. createLoadingEmbed k s = Inr s' \<and> currentUploads s' k = Some (nextBlot s)
           \<and> scroll s' ! index (lastSelection s) = (nextBlot s, EmbedLoading (Some k))"
  using assms(2) by (simp add: createLoadingEmbed_returns [OF assms] nth_append)

lemma created_wellFormed:
  assumes "wellFormed s"
  shows "wellFormed (s\<lparr>scroll := take i (scroll s) @ (nextBlot s, b) # drop i (scroll s),
            selection := sel, nextBlot := Suc (nextBlot s), currentUploads := m,
            pauseSelectionTracking := p\<rparr>)"
proof -
  have "wellFormed (insertEmbed i b s)"
    using assms by (rule insertEmbed_wellFormed)
  then show ?thesis
    by (simp add: wellFormed_def insertEmbed_def)
qed

lemma created_sound:
  fixes s :: quillEmbedModule and i :: nat and sel k p
  defines "s' \<equiv> s\<lparr>scroll := take i (scroll s) @ (nextBlot s, EmbedLoading (Some k)) # drop i (scroll s),
            selection := sel, nextBlot := Suc (nextBlot s),
            currentUploads := (currentUploads s)(k \<mapsto> nextBlot s),
            pauseSelectionTracking := p\<rparr>"
  assumes "registrySound s"
  shows "registrySound s'"
proof -
  have sc: "scroll s' = scroll (insertEmbed i (EmbedLoading (Some k)) s)"
    and cu: "currentUploads s' = (currentUploads s)(k \<mapsto> nextBlot s)"
    by (simp_all add: s'_def insertEmbed_def)
  show ?thesis
    unfolding registrySound_def sc cu in_insertEmbed
    using assms(2) by (auto dest: registrySoundD)
qed

lemma created_complete:
  fixes s :: quillEmbedModule and i :: nat and sel k p
  defines "s' \<equiv> s\<lparr>scroll := take i (scroll s) @ (nextBlot s, EmbedLoading (Some k)) # drop i (scroll s),
            selection := sel, nextBlot := Suc (nextBlot s),
            currentUploads := (currentUploads s)(k \<mapsto> nextBlot s),
            pauseSelectionTracking := p\<rparr>"
  assumes "registryComplete s" and "currentUploads s k = None"
  shows "registryComplete s'"
proof -
  have sc: "scroll s' = scroll (insertEmbed i (EmbedLoading (Some k)) s)"
    and cu: "currentUploads s' = (currentUploads s)(k \<mapsto> nextBlot s)"
    by (simp_all add: s'_def insertEmbed_def)
  show ?thesis
  proof (rule registryCompleteI)
    fix n cb assume "(n, EmbedLoading cb) \<in> set (scroll s')"
    then consider "n = nextBlot s" "cb = Some k" | "(n, EmbedLoading cb) \<in> set (scroll s)"
      unfolding sc in_insertEmbed by auto
    then show "\<exists>k'. cb = Some k' \<and> currentUploads s' k' = Some n"
    proof cases
      case 1
      then show ?thesis by (simp add: cu)
    next
      case 2
      then obtain k' where cb: "cb = Some k'" and r: "currentUploads s k' = Some n"
        using registryComplete_callback [OF assms(2)] by blast
      have "k' \<noteq> k" using r assms(3) by auto
      then show ?thesis using cb r by (simp add: cu)
    qed
  qed
qed

lemma thrown_invariants:
  fixes s :: quillEmbedModule and sel
  defines "s' \<equiv> s\<lparr>scroll := scroll s @ [(nextBlot s, EmbedLoading None)],
            selection := sel,
            nextBlot := Suc (nextBlot s), pauseSelectionTracking := True\<rparr>"
  shows "wellFormed s \<Longrightarrow> wellFormed s'"
    and "registrySound s \<Longrightarrow> registrySound s'"
    and "\<not> registryComplete s'"
proof -
  have eq: "scroll s' = scroll (insertEmbed (length (scroll s)) (EmbedLoading None) s)"
           "nextBlot s' = nextBlot (insertEmbed (length (scroll s)) (EmbedLoading None) s)"
           "currentUploads s' = currentUploads (insertEmbed (length (scroll s)) (EmbedLoading None) s)"
    by (simp_all add: s'_def insertEmbed_def)
  show "wellFormed s \<Longrightarrow> wellFormed s'"
    using insertEmbed_wellFormed wellFormed_cong [OF eq(1,2)] by blast
  show "registrySound s \<Longrightarrow> registrySound s'"
    using insertEmbed_sound registrySound_cong [OF eq(1,3)] by blast
  have "(nextBlot s, EmbedLoading None) \<in> set (scroll s')"
    by (simp add: s'_def)
  then show "\<not> registryComplete s'"
    by (auto dest: registryComplete_callback)
qed

lemma createLoadingEmbed_isl:
  "isl (createLoadingEmbed k s) \<longleftrightarrow> length (scroll s) < index (lastSelection s)"
proof (cases "index (lastSelection s) \<le> length (scroll s)")
  case True
  then have "(take (index (lastSelection s)) (scroll s) @ (nextBlot s, EmbedLoading None)
               # drop (index (lastSelection s)) (scroll s)) ! index (lastSelection s)
             = (nextBlot s, EmbedLoading None)"
    by (simp add: nth_append)
  then show ?thesis
    using True
    by (simp add: createLoadingEmbed_def insertEmbed_def descendant_def setSelection_def Let_def)
next
  case False
  then show ?thesis
    by (simp add: createLoadingEmbed_throws)
qed

lemma createLoadingEmbed_wellFormed:
  "wellFormed s \<Longrightarrow> wellFormed (stateOf (createLoadingEmbed k s))"
  by (cases "index (lastSelection s) \<le> length (scroll s)")
     (simp_all add: createLoadingEmbed_returns createLoadingEmbed_throws
        created_wellFormed thrown_invariants)

lemma createLoadingEmbed_sound:
  "wellFormed s \<Longrightarrow> registrySound s \<Longrightarrow> registrySound (stateOf (createLoadingEmbed k s))"
  by (cases "index (lastSelection s) \<le> length (scroll s)")
     (simp_all add: createLoadingEmbed_returns createLoadingEmbed_throws
        created_sound thrown_invariants)

lemma createLoadingEmbed_complete:
  "wellFormed s \<Longrightarrow> registryComplete s \<Longrightarrow> currentUploads s k = None \<Longrightarrow>
   index (lastSelection s) \<le> length (scroll s) \<Longrightarrow>
   registryComplete (stateOf (createLoadingEmbed k s))"
  by (simp add: createLoadingEmbed_returns created_complete)

lemma createLoadingEmbed_thrown_incomplete:
  "length (scroll s) < index (lastSelection s) \<Longrightarrow>
   \<not> registryComplete (stateOf (createLoadingEmbed k s))"
  by (simp add: createLoadingEmbed_throws thrown_invariants)

lemma createLoadingEmbed_duplicate_incomplete:
  assumes wf: "wellFormed s" and sd: "registrySound s" and k: "currentUploads s k = Some n"
  shows "\<not> registryComplete (stateOf (createLoadingEmbed k s))"
proof (cases "index (lastSelection s) \<le> length (scroll s)")
  case True
  let ?s' = "stateOf (createLoadingEmbed k s)"
  have old: "(n, EmbedLoading (Some k)) \<in> set (scroll s)"
    using sd k by (rule registrySoundD)
  then have "n \<noteq> nextBlot s"
    using wf by (auto dest: wellFormedD)
  moreover have "(n, EmbedLoading (Some k)) \<in> set (scroll ?s')"
    and "currentUploads ?s' k = Some (nextBlot s)"
    using old
    by (simp_all add: createLoadingEmbed_returns [OF wf True] set_insertAt del: set_append)
  ultimately show ?thesis
    by (auto dest: registryCompleteD)
next
  case False
  then show ?thesis
    by (simp add: createLoadingEmbed_thrown_incomplete)
qed

subsection \<open>Deleting a blot\<close>

lemma deleteBlot_absent:
  "n \<notin> fst ` set (scroll s) \<Longrightarrow> deleteBlot n s = s"
proof -
  assume "n \<notin> fst ` set (scroll s)"
  then have "map_of (scroll s) n = None"
    by (simp add: map_of_eq_None_iff)
  then show ?thesis
    by (simp add: deleteBlot_def)
qed

lemma deleteBlot_placeholder:
  assumes wf: "wellFormed s" and n: "(n, EmbedLoading (Some k)) \<in> set (scroll s)"
  shows "deleteBlot n s =
     s\<lparr>scroll := filter (\<lambda>(m, b). m \<noteq> n) (scroll s),
       currentUploads := (currentUploads s)(k := None)\<rparr>"
proof -
  have "map_of (scroll s) n = Some (EmbedLoading (Some k))"
    using wf n by (simp add: wellFormed_def)
  then show ?thesis
    by (auto simp: deleteBlot_def deleteCallbackOf_def fun_upd_idem Let_def)
qed

lemma deleteBlot_other:
  assumes wf: "wellFormed s" and n: "(n, b) \<in> set (scroll s)" and b: "\<forall>k. b \<noteq> EmbedLoading (Some k)"
  shows "deleteBlot n s = s\<lparr>scroll := filter (\<lambda>(m, b). m \<noteq> n) (scroll s)\<rparr>"
proof -
  have "map_of (scroll s) n = Some b"
    using wf n by (simp add: wellFormed_def)
  then show ?thesis
    using b by (simp add: deleteBlot_def Let_def split: blot.splits option.splits)
qed

lemma scroll_deleteBlot:
  "scroll (deleteBlot n s) = filter (\<lambda>(m, b). m \<noteq> n) (scroll s)"
proof (cases "map_of (scroll s) n")
  case None
  then have "n \<notin> fst ` set (scroll s)"
    by (simp add: map_of_eq_None_iff)
  then have "filter (\<lambda>(m, b). m \<noteq> n) (scroll s) = scroll s"
    by (intro filter_True) force
  then show ?thesis
    using None by (simp add: deleteBlot_def)
next
  case (Some b)
  then show ?thesis
    by (simp add: deleteBlot_def deleteCallbackOf_def Let_def split: blot.splits option.splits)
qed

lemma nextBlot_deleteBlot [simp]: "nextBlot (deleteBlot n s) = nextBlot s"
  by (simp add: deleteBlot_def deleteCallbackOf_def Let_def split: blot.splits option.splits)

lemma currentUploads_deleteBlot:
  "currentUploads (deleteBlot n s) =
     (case map_of (scroll s) n of
        Some (EmbedLoading (Some k)) \<Rightarrow> (currentUploads s)(k := None)
      | _ \<Rightarrow> currentUploads s)"
  by (auto simp: deleteBlot_def deleteCallbackOf_def Let_def fun_upd_idem split: blot.splits option.splits)

lemma deleteBlot_wellFormed:
  assumes "wellFormed s" shows "wellFormed (deleteBlot n s)"
proof (rule wellFormedI)
  show "distinct (map fst (scroll (deleteBlot n s)))"
    using assms by (simp add: scroll_deleteBlot wellFormed_distinct distinct_map_filter)
next
  fix j b assume "(j, b) \<in> set (scroll (deleteBlot n s))"
  then show "j < nextBlot (deleteBlot n s)"
    using assms by (auto simp: scroll_deleteBlot dest: wellFormedD)
qed

lemma deleteBlot_sound:
  assumes wf: "wellFormed s" and snd: "registrySound s"
  shows "registrySound (deleteBlot n s)"
  unfolding registrySound_def
proof (intro allI impI)
  fix k' n' assume r: "currentUploads (deleteBlot n s) k' = Some n'"
  have r0: "currentUploads s k' = Some n'"
    using r by (auto simp: currentUploads_deleteBlot split: blot.splits option.splits if_splits)
  have a: "(n', EmbedLoading (Some k')) \<in> set (scroll s)"
    using registrySoundD [OF snd r0] .
  have "n' \<noteq> n"
  proof
    assume "n' = n"
    then have "map_of (scroll s) n = Some (EmbedLoading (Some k'))"
      using a wf by (simp add: wellFormed_distinct)
    then show False
      using r by (simp add: currentUploads_deleteBlot)
  qed
  then show "(n', EmbedLoading (Some k')) \<in> set (scroll (deleteBlot n s))"
    using a by (simp add: scroll_deleteBlot)
qed

lemma deleteBlot_complete:
  assumes cmp: "registryComplete s"
  shows "registryComplete (deleteBlot n s)"
proof (rule registryCompleteI)
  fix j cb assume "(j, EmbedLoading cb) \<in> set (scroll (deleteBlot n s))"
  then have a: "(j, EmbedLoading cb) \<in> set (scroll s)" and jn: "j \<noteq> n"
    by (auto simp: scroll_deleteBlot)
  obtain k' where cb: "cb = Some k'" and r: "currentUploads s k' = Some j"
    using registryComplete_callback [OF cmp a] by blast
  have "currentUploads (deleteBlot n s) k' = Some j"
  proof (cases "\<exists>k. map_of (scroll s) n = Some (EmbedLoading (Some k))")
    case True
    then obtain k where m: "map_of (scroll s) n = Some (EmbedLoading (Some k))" by blast
    then have "(n, EmbedLoading (Some k)) \<in> set (scroll s)"
      by (rule map_of_SomeD)
    then have "currentUploads s k = Some n"
      using cmp by (rule registryCompleteD [rotated])
    then have "k \<noteq> k'" using r jn by auto
    then show ?thesis using m r by (simp add: currentUploads_deleteBlot)
  next
    case False
    then show ?thesis
      using r by (auto simp: currentUploads_deleteBlot split: blot.splits option.splits)
  qed
  then show "\<exists>k. cb = Some k \<and> currentUploads (deleteBlot n s) k = Some j"
    using cb by blast
qed

subsection \<open>The invariants along events\<close>

lemma scrapeMedia_then_cases:
  "scrapeMedia_then u r s = createSiteEmbed (data r) s
   \<or> scrapeMedia_then u r s = createExternalImageEmbed (data r) s
   \<or> (\<exists>e. scrapeMedia_then u r s = createErrorEmbed (Some (UrlKey u)) e s)"
  by (auto simp: scrapeMedia_then_def)

lemma scrapeMedia_catch_cases:
  "\<exists>e. scrapeMedia_catch u err s = createErrorEmbed (Some (UrlKey u)) e s"
  by (auto simp: scrapeMedia_catch_def split: option.splits)

lemma step_wellFormed:
  assumes "wellFormed s" shows "wellFormed (stateOf (step e s))"
proof (cases e)
  case (ScrapeResolved u r)
  then show ?thesis
    using assms scrapeMedia_then_cases [of u r s]
    by (auto simp: createSiteEmbed_resolved createExternalImageEmbed_resolved
          resolved_wellFormed createErrorEmbed_wellFormed)
next
  case (ScrapeRejected u err)
  then show ?thesis
    using assms scrapeMedia_catch_cases [of u err s]
    by (auto simp: createErrorEmbed_wellFormed)
next
  case (EditorChange ty a)
  then show ?thesis
    using assms wellFormed_cong [of "handleEditorChange ty a s" s] by simp
qed (use assms in \<open>simp_all add: scrapeMedia_def createLoadingEmbed_wellFormed
       onImageUploadSuccess_resolved resolved_wellFormed createErrorEmbed_wellFormed
       deleteBlot_wellFormed\<close>)

lemma step_sound:
  assumes "wellFormed s" and "registrySound s" shows "registrySound (stateOf (step e s))"
proof (cases e)
  case (ScrapeResolved u r)
  then show ?thesis
    using assms scrapeMedia_then_cases [of u r s]
    by (auto simp: createSiteEmbed_resolved createExternalImageEmbed_resolved
          resolved_sound createErrorEmbed_sound)
next
  case (ScrapeRejected u err)
  then show ?thesis
    using assms scrapeMedia_catch_cases [of u err s]
    by (auto simp: createErrorEmbed_sound)
next
  case (EditorChange ty a)
  then show ?thesis
    using assms registrySound_cong [of "handleEditorChange ty a s" s] by simp
qed (use assms in \<open>simp_all add: scrapeMedia_def createLoadingEmbed_sound
       onImageUploadSuccess_resolved resolved_sound createErrorEmbed_sound
       deleteBlot_sound\<close>)

lemma returns_iff:
  "returns e s \<longleftrightarrow> creates e = None \<or> index (lastSelection s) \<le> length (scroll s)"
proof (cases e)
  case (Submit u)
  then show ?thesis
    using createLoadingEmbed_isl [of "UrlKey u" s]
    by (simp add: returns_def scrapeMedia_def split: sum.splits) (metis isl_def not_le sum.disc(2))
next
  case (UploadStart f)
  then show ?thesis
    using createLoadingEmbed_isl [of "FileKey f" s]
    by (simp add: returns_def split: sum.splits) (metis isl_def not_le sum.disc(2))
qed (simp_all add: returns_def)

lemma step_complete:
  assumes "wellFormed s" and "registryComplete s" and "freshKey e s" and "returns e s"
  shows "registryComplete (stateOf (step e s))"
proof (cases e)
  case (ScrapeResolved u r)
  then show ?thesis
    using assms scrapeMedia_then_cases [of u r s]
    by (auto simp: createSiteEmbed_resolved createExternalImageEmbed_resolved
          resolved_complete createErrorEmbed_complete)
next
  case (ScrapeRejected u err)
  then show ?thesis
    using assms scrapeMedia_catch_cases [of u err s]
    by (auto simp: createErrorEmbed_complete)
next
  case (EditorChange ty a)
  then show ?thesis
    using assms registryComplete_cong [of "handleEditorChange ty a s" s] by simp
qed (use assms in \<open>simp_all add: scrapeMedia_def createLoadingEmbed_complete freshKey_def
       returns_iff onImageUploadSuccess_resolved resolved_complete createErrorEmbed_complete
       deleteBlot_complete\<close>)

lemma step_incomplete:
  assumes "wellFormed s" and "registrySound s" and "\<not> (freshKey e s \<and> returns e s)"
  shows "\<not> registryComplete (stateOf (step e s))"
proof -
  obtain k where k: "creates e = Some k"
    using assms(3) by (cases "creates e") (simp_all add: freshKey_def returns_iff)
  have st: "step e s = createLoadingEmbed k s"
    using k by (cases e) (simp_all add: scrapeMedia_def)
  show ?thesis
  proof (cases "currentUploads s k")
    case None
    then have "length (scroll s) < index (lastSelection s)"
      using assms(3) k by (simp add: freshKey_def returns_iff)
    then show ?thesis
      unfolding st by (rule createLoadingEmbed_thrown_incomplete)
  next
    case (Some n)
    show ?thesis
      unfolding st using assms(1,2) Some by (rule createLoadingEmbed_duplicate_incomplete)
  qed
qed

lemma run_invariants:
  assumes "wellFormed s" and "registrySound s"
  shows "wellFormed (run es s) \<and> registrySound (run es s)
       \<and> (registryComplete s \<and> freshKeys es s \<longrightarrow> registryComplete (run es s))"
  using assms
proof (induction es arbitrary: s)
  case Nil
  then show ?case by simp
next
  case (Cons e es)
  note wf = step_wellFormed [OF Cons.prems(1), of e]
  note sd = step_sound [OF Cons.prems, of e]
  show ?case
    using Cons.IH [OF wf sd] step_complete [OF Cons.prems(1), of e]
    by auto
qed

lemma reachable_invariants:
  "wellFormed (run es initial) \<and> registrySound (run es initial)
   \<and> (freshKeys es initial \<longrightarrow> registryComplete (run es initial))"
  using run_invariants [OF initial_invariants(1,2), of es] initial_invariants(3) by simp

subsection \<open>Blots that no key leads to\<close>

text \<open>A blot that no key leads to stays as it is until it is deleted from outside.\<close>

lemma resolved_untracked:
  assumes "(n, c) \<in> set (scroll s)" and "\<forall>k'. currentUploads s k' \<noteq> Some n"
  shows "(n, c) \<in> set (scroll (resolved k b s)) \<and> (\<forall>k'. currentUploads (resolved k b s) k' \<noteq> Some n)"
proof (cases "currentUploads s k")
  case None
  then show ?thesis using assms by (simp add: resolved_def)
next
  case (Some m)
  then have "m \<noteq> n" using assms(2) by auto
  then show ?thesis
    using Some assms by (simp add: resolved_def in_replaceWith)
qed

lemma createErrorEmbed_untracked:
  assumes "(n, c) \<in> set (scroll s)" and "\<forall>k'. currentUploads s k' \<noteq> Some n"
  shows "(n, c) \<in> set (scroll (createErrorEmbed K e s))
       \<and> (\<forall>k'. currentUploads (createErrorEmbed K e s) k' \<noteq> Some n)"
proof (cases K)
  case None
  then show ?thesis
    using assms by (simp add: createErrorEmbed_null in_insertEmbed)
next
  case (Some k)
  then show ?thesis
    using resolved_untracked [of n c "logError (message e) s" k "EmbedError [e]"] assms
    by (simp add: createErrorEmbed_resolved)
qed

lemma createLoadingEmbed_untracked:
  assumes "wellFormed s" and "(n, c) \<in> set (scroll s)" and "\<forall>k'. currentUploads s k' \<noteq> Some n"
  shows "(n, c) \<in> set (scroll (stateOf (createLoadingEmbed k s)))
       \<and> (\<forall>k'. currentUploads (stateOf (createLoadingEmbed k s)) k' \<noteq> Some n)"
proof (cases "index (lastSelection s) \<le> length (scroll s)")
  case True
  have "n \<noteq> nextBlot s"
    using assms(1,2) by (auto dest: wellFormedD)
  then show ?thesis
    using True assms
    by (simp add: createLoadingEmbed_returns [OF assms(1) True] set_insertAt del: set_append)
next
  case False
  then show ?thesis
    using assms by (simp add: createLoadingEmbed_throws)
qed

lemma deleteBlot_untracked:
  assumes "(n, c) \<in> set (scroll s)" and "\<forall>k'. currentUploads s k' \<noteq> Some n" and "j \<noteq> n"
  shows "(n, c) \<in> set (scroll (deleteBlot j s))
       \<and> (\<forall>k'. currentUploads (deleteBlot j s) k' \<noteq> Some n)"
  using assms
  by (auto simp: scroll_deleteBlot currentUploads_deleteBlot split: option.splits blot.splits)

lemma step_untracked:
  assumes "wellFormed s" and "(n, c) \<in> set (scroll s)" and "\<forall>k'. currentUploads s k' \<noteq> Some n"
    and "e \<noteq> BlotDeleted n"
  shows "(n, c) \<in> set (scroll (stateOf (step e s)))
       \<and> (\<forall>k'. currentUploads (stateOf (step e s)) k' \<noteq> Some n)"
proof (cases e)
  case (Submit u)
  then show ?thesis
    using createLoadingEmbed_untracked [OF assms(1-3)] by (simp add: scrapeMedia_def)
next
  case (ScrapeResolved u r)
  then show ?thesis
    using scrapeMedia_then_cases [of u r s] resolved_untracked [OF assms(2,3)]
      createErrorEmbed_untracked [OF assms(2,3)]
    by (auto simp: createSiteEmbed_resolved createExternalImageEmbed_resolved)
next
  case (ScrapeRejected u err)
  then show ?thesis
    using scrapeMedia_catch_cases [of u err s] createErrorEmbed_untracked [OF assms(2,3)]
    by auto
next
  case (UploadStart f)
  then show ?thesis
    using createLoadingEmbed_untracked [OF assms(1-3)] by simp
next
  case (UploadSuccess f r)
  then show ?thesis
    using resolved_untracked [OF assms(2,3)] by (simp add: onImageUploadSuccess_resolved)
next
  case (UploadFailure f err)
  then show ?thesis
    using createErrorEmbed_untracked [OF assms(2,3)] by simp
next
  case (BlotDeleted j)
  then show ?thesis
    using deleteBlot_untracked [OF assms(2,3), of j] assms(4) by simp
next
  case (EditorChange ty a)
  then show ?thesis
    using assms by simp
qed

lemma run_untracked:
  assumes "wellFormed s" and "(n, c) \<in> set (scroll s)" and "\<forall>k'. currentUploads s k' \<noteq> Some n"
    and "BlotDeleted n \<notin> set es"
  shows "(n, c) \<in> set (scroll (run es s))"
  using assms
proof (induction es arbitrary: s)
  case Nil
  then show ?case by simp
next
  case (Cons e es)
  have e: "e \<noteq> BlotDeleted n" and es: "BlotDeleted n \<notin> set es"
    using Cons.prems(4) by auto
  have "wellFormed (stateOf (step e s))"
    using Cons.prems(1) by (rule step_wellFormed)
  moreover note step_untracked [OF Cons.prems(1-3) e]
  ultimately show ?case
    using Cons.IH [of "stateOf (step e s)"] es by simp
qed

subsection \<open>Two placeholders under one key\<close>

lemma createLoadingEmbed_twice:
  assumes wf: "wellFormed s" and i: "index (lastSelection s) \<le> length (scroll s)"
  shows "\<exists>s1 s2. createLoadingEmbed k s = Inr s1 \<and> createLoadingEmbed k s1 = Inr s2
     \<and> wellFormed s2
     \<and> currentUploads s1 = (currentUploads s)(k \<mapsto> nextBlot s)
     \<and> currentUploads s2 = (currentUploads s)(k \<mapsto> Suc (nextBlot s))
     \<and> scroll s2 = take (index (lastSelection s)) (scroll s)
          @ (Suc (nextBlot s), EmbedLoading (Some k))
          # (nextBlot s, EmbedLoading (Some k))
          # drop (index (lastSelection s)) (scroll s)"
proof -
  let ?i = "index (lastSelection s)"
  define s1 where "s1 = s\<lparr>scroll := take ?i (scroll s) @ (nextBlot s, EmbedLoading (Some k)) # drop ?i (scroll s),
            selection := Some \<lparr>index = ?i + 1, length_r = 0\<rparr>,
            nextBlot := Suc (nextBlot s),
            currentUploads := (currentUploads s)(k \<mapsto> nextBlot s),
            pauseSelectionTracking := False\<rparr>"
  have c1: "createLoadingEmbed k s = Inr s1"
    unfolding s1_def by (rule createLoadingEmbed_returns [OF wf i])
  have wf1: "wellFormed s1"
    unfolding s1_def by (rule created_wellFormed [OF wf])
  have i1: "index (lastSelection s1) \<le> length (scroll s1)"
    using i by (simp add: s1_def)
  note c2 = createLoadingEmbed_returns [OF wf1 i1, of k]
  have wf2: "wellFormed (stateOf (createLoadingEmbed k s1))"
    using wf1 by (rule createLoadingEmbed_wellFormed)
  have t: "take ?i (scroll s1) = take ?i (scroll s)"
    and d: "drop ?i (scroll s1) = (nextBlot s, EmbedLoading (Some k)) # drop ?i (scroll s)"
    using i by (simp_all add: s1_def)
  have l: "index (lastSelection s1) = ?i" and n: "nextBlot s1 = Suc (nextBlot s)"
    and u: "currentUploads s1 = (currentUploads s)(k \<mapsto> nextBlot s)"
    by (simp_all add: s1_def)
  show ?thesis
    apply (rule exI [of _ s1])
    apply (rule exI [of _ "stateOf (createLoadingEmbed k s1)"])
    using c1 wf2 u
    apply (simp add: c2)
    apply (simp add: l n t d)
    done
qed

subsection \<open>Some runs from the initial state\<close>

lemma submit_initial:
  "createLoadingEmbed (UrlKey ''a'') initial =
     Inr \<lparr>scroll = [(0, EmbedLoading (Some (UrlKey ''a'')))],
          selection = Some \<lparr>index = 1, length_r = 0\<rparr>, nextBlot = 1, errorLog = [],
          currentUploads = [UrlKey ''a'' \<mapsto> 0], lastSelection = \<lparr>index = 0, length_r = 0\<rparr>,
          pauseSelectionTracking = False\<rparr>"
  by (simp add: initial_def createLoadingEmbed_def insertEmbed_def descendant_def
        setSelection_def registerDeleteCallback_def Let_def)

lemma submit_twice_initial:
  "createLoadingEmbed (UrlKey ''a'')
     \<lparr>scroll = [(0, EmbedLoading (Some (UrlKey ''a'')))],
      selection = Some \<lparr>index = 1, length_r = 0\<rparr>, nextBlot = 1, errorLog = [],
      currentUploads = [UrlKey ''a'' \<mapsto> 0], lastSelection = \<lparr>index = 0, length_r = 0\<rparr>,
      pauseSelectionTracking = False\<rparr> =
     Inr \<lparr>scroll = [(1, EmbedLoading (Some (UrlKey ''a''))), (0, EmbedLoading (Some (UrlKey ''a'')))],
          selection = Some \<lparr>index = 1, length_r = 0\<rparr>, nextBlot = 2, errorLog = [],
          currentUploads = [UrlKey ''a'' \<mapsto> 1], lastSelection = \<lparr>index = 0, length_r = 0\<rparr>,
          pauseSelectionTracking = False\<rparr>"
  by (simp add: createLoadingEmbed_def insertEmbed_def descendant_def
        setSelection_def registerDeleteCallback_def Let_def)

lemma submitted_initial:
  "stateOf (scrapeMedia ''a'' initial) =
     \<lparr>scroll = [(0, EmbedLoading (Some (UrlKey ''a'')))],
      selection = Some \<lparr>index = 1, length_r = 0\<rparr>, nextBlot = 1, errorLog = [],
      currentUploads = [UrlKey ''a'' \<mapsto> 0], lastSelection = \<lparr>index = 0, length_r = 0\<rparr>,
      pauseSelectionTracking = False\<rparr>"
  unfolding scrapeMedia_def submit_initial by simp

lemma run_submit_deleted:
  "run [Submit ''a'', BlotDeleted 0] initial =
     \<lparr>scroll = [], selection = Some \<lparr>index = 1, length_r = 0\<rparr>, nextBlot = 1, errorLog = [],
      currentUploads = Map.empty, lastSelection = \<lparr>index = 0, length_r = 0\<rparr>,
      pauseSelectionTracking = False\<rparr>"
  by (simp add: initial_def scrapeMedia_def createLoadingEmbed_def insertEmbed_def descendant_def
        setSelection_def registerDeleteCallback_def deleteBlot_def deleteCallbackOf_def Let_def)

lemma run_upload_deleted:
  "run [UploadStart 3, BlotDeleted 0] initial =
     \<lparr>scroll = [], selection = Some \<lparr>index = 1, length_r = 0\<rparr>, nextBlot = 1, errorLog = [],
      currentUploads = Map.empty, lastSelection = \<lparr>index = 0, length_r = 0\<rparr>,
      pauseSelectionTracking = False\<rparr>"
  by (simp add: initial_def createLoadingEmbed_def insertEmbed_def descendant_def
        setSelection_def registerDeleteCallback_def deleteBlot_def deleteCallbackOf_def Let_def)

section \<open>Properties of the module\<close>

subsection \<open>Creating a placeholder and resolving it\<close>

text \<open>
  Claim C1. After \<^verbatim>\<open>createLoadingEmbed\<close> the key leads to the blot just created
  (\<open>createLoadingEmbed_registers\<close>), and every constructor deletes the key it looks up
  (\<open>resolution_deletes_key\<close>). But the key that \<^verbatim>\<open>createSiteEmbed\<close> and
  \<^verbatim>\<open>createExternalImageEmbed\<close> look up is the \<^verbatim>\<open>url\<close> of the response, while the
  placeholder was stored under the URL that was submitted, the key that the error branches
  of the same \<^verbatim>\<open>scrapeMedia\<close> do use. When the two differ, as for a response that gives
  the URL with a trailing slash, the submitted URL is still in \<^verbatim>\<open>currentUploads\<close> after
  the scrape has succeeded, and its placeholder is still a loading blot in the document.
\<close>

theorem scrape_success_under_other_url:
  "currentUploads
     (run [Submit ''http://a.example'',
           ScrapeResolved ''http://a.example''
             \<lparr>data = \<lparr>attributes = [], type = ''site'', url = ''http://a.example/'',
                body = ''text'', name = ''title'', photoUrl = ''http://a.example/p.png'',
                height = 0, width = 0\<rparr>\<rparr>] initial)
     (UrlKey ''http://a.example'') = Some 0
   \<and> scroll
     (run [Submit ''http://a.example'',
           ScrapeResolved ''http://a.example''
             \<lparr>data = \<lparr>attributes = [], type = ''site'', url = ''http://a.example/'',
                body = ''text'', name = ''title'', photoUrl = ''http://a.example/p.png'',
                height = 0, width = 0\<rparr>\<rparr>] initial)
     = [(0, EmbedLoading (Some (UrlKey ''http://a.example'')))]"
  by (simp add: initial_def scrapeMedia_def createLoadingEmbed_def insertEmbed_def descendant_def
        setSelection_def registerDeleteCallback_def Let_def scrapeMedia_then_def
        createSiteEmbed_def Parchment_create_def)

subsection \<open>The registry invariant\<close>

text \<open>
  The invariant as claimed (C2) fails when a key is used twice: after the same URL was
  submitted twice and the first placeholder was deleted, the second placeholder is in the
  document, neither resolved nor deleted, and its key is absent.
\<close>

theorem registry_invariant_counterexample:
  "scroll (run [Submit ''http://b.example'', Submit ''http://b.example'', BlotDeleted 0] initial)
     = [(1, EmbedLoading (Some (UrlKey ''http://b.example'')))]
   \<and> currentUploads
        (run [Submit ''http://b.example'', Submit ''http://b.example'', BlotDeleted 0] initial)
        (UrlKey ''http://b.example'') = None"
  by (simp add: initial_def scrapeMedia_def createLoadingEmbed_def insertEmbed_def descendant_def
        setSelection_def registerDeleteCallback_def Let_def deleteBlot_def deleteCallbackOf_def)

text \<open>
  Claim C2, amended. Every event keeps a well-formed state with a sound registry that way,
  and so does \<^verbatim>\<open>createVideoEmbed\<close>, which no event reaches: a key that is present leads
  to a blot that is in the document, is still a loading blot, and has the callback of that
  key; and a map holds at most one blot per key. Deleting a placeholder from outside
  leaves no entry for its key. The other half, that every loading blot in the document has
  a callback and is the blot stored under the callback's key, is kept by every event, and
  by \<^verbatim>\<open>createVideoEmbed\<close>, with two exceptions, and is lost in both:
  \<^verbatim>\<open>createLoadingEmbed\<close> called with a key that is present, which leaves the placeholder
  that the key led to in the document with the key now leading to the new one; and
  \<^verbatim>\<open>createLoadingEmbed\<close> called while the last selection lies beyond the document, which
  throws after the loading blot was inserted and before it was given a callback and
  stored, leaving a loading blot that no key leads to. From the initial state this gives
  \<open>reachable_invariants\<close>.
\<close>

theorem registry_invariant_preserved:
  assumes "wellFormed s" and "registrySound s"
  shows "wellFormed (stateOf (step e s)) \<and> registrySound (stateOf (step e s))
       \<and> (registryComplete s \<longrightarrow>
            (registryComplete (stateOf (step e s)) \<longleftrightarrow> freshKey e s \<and> returns e s))
       \<and> (returns e s \<longleftrightarrow>
            creates e = None \<or> index (lastSelection s) \<le> length (scroll s))
       \<and> wellFormed (createVideoEmbed d s) \<and> registrySound (createVideoEmbed d s)
       \<and> (registryComplete s \<longrightarrow> registryComplete (createVideoEmbed d s))
       \<and> (\<forall>n k. (n, EmbedLoading (Some k)) \<in> set (scroll s) \<longrightarrow>
             currentUploads (deleteBlot n s) k = None)"
proof -
  have del: "currentUploads (deleteBlot n s) k = None"
    if "(n, EmbedLoading (Some k)) \<in> set (scroll s)" for n k
    by (simp add: deleteBlot_placeholder [OF assms(1) that])
  have cmp: "registryComplete (stateOf (step e s)) \<longleftrightarrow> freshKey e s \<and> returns e s"
    if "registryComplete s"
    using step_complete [OF assms(1) that, of e] step_incomplete [OF assms, of e] by blast
  have video: "wellFormed (createVideoEmbed d s)" "registrySound (createVideoEmbed d s)"
    "registryComplete s \<Longrightarrow> registryComplete (createVideoEmbed d s)"
    using assms
    by (simp_all add: createVideoEmbed_resolved resolved_wellFormed resolved_sound
          resolved_complete)
  show ?thesis
    using step_wellFormed [OF assms(1), of e] step_sound [OF assms, of e] cmp
      returns_iff [of e s] video del
    by blast
qed

theorem registry_invariant_preserved_witness:
  "wellFormed (stateOf (scrapeMedia ''a'' initial))
   \<and> registrySound (stateOf (scrapeMedia ''a'' initial))
   \<and> registryComplete (stateOf (scrapeMedia ''a'' initial))
   \<and> freshKey (Submit ''b'') (stateOf (scrapeMedia ''a'' initial))
   \<and> returns (Submit ''b'') (stateOf (scrapeMedia ''a'' initial))
   \<and> (0, EmbedLoading (Some (UrlKey ''a''))) \<in> set (scroll (stateOf (scrapeMedia ''a'' initial)))
   \<and> wellFormed (stateOf (step (Submit ''b'') (stateOf (scrapeMedia ''a'' initial))))
   \<and> registrySound (stateOf (step (Submit ''b'') (stateOf (scrapeMedia ''a'' initial))))
   \<and> registryComplete (stateOf (step (Submit ''b'') (stateOf (scrapeMedia ''a'' initial))))
   \<and> currentUploads (deleteBlot 0 (stateOf (scrapeMedia ''a'' initial))) (UrlKey ''a'') = None"
proof -
  let ?s = "stateOf (scrapeMedia ''a'' initial)"
  have k: "currentUploads initial (UrlKey ''a'') = None"
    and i: "index (lastSelection initial) \<le> length (scroll initial)"
    by (simp_all add: initial_def)
  have wf: "wellFormed ?s"
    unfolding scrapeMedia_def using initial_invariants(1) by (rule createLoadingEmbed_wellFormed)
  have sd: "registrySound ?s"
    unfolding scrapeMedia_def using initial_invariants(1,2) by (rule createLoadingEmbed_sound)
  have cp: "registryComplete ?s"
    unfolding scrapeMedia_def using initial_invariants(1,3) k i
    by (rule createLoadingEmbed_complete)
  have fk: "freshKey (Submit ''b'') ?s"
    unfolding submitted_initial by (simp add: freshKey_def)
  have rt: "returns (Submit ''b'') ?s"
    unfolding returns_iff submitted_initial by simp
  have pl: "(0, EmbedLoading (Some (UrlKey ''a''))) \<in> set (scroll ?s)"
    unfolding submitted_initial by simp
  show ?thesis
    using registry_invariant_preserved [OF wf sd, of "Submit ''b''"] wf sd cp fk rt pl
    by blast
qed

subsection \<open>An error that arrives after its placeholder was deleted\<close>

text \<open>
  The claim (C3) that such an error is inserted as a standalone error embed fails: after a
  URL was submitted and its placeholder deleted, \<^verbatim>\<open>createErrorEmbed\<close> with that URL
  leaves the document empty.
\<close>

theorem late_error_counterexample:
  "currentUploads (run [Submit ''a'', BlotDeleted 0] initial) (UrlKey ''a'') = None
   \<and> scroll (createErrorEmbed (Some (UrlKey ''a'')) (new_Error ''boom'')
        (run [Submit ''a'', BlotDeleted 0] initial)) = []"
  unfolding run_submit_deleted by (simp add: createErrorEmbed_absent)

text \<open>
  Claim C3, amended. With a key that is not \<^verbatim>\<open>null\<close> and is no longer in
  \<^verbatim>\<open>currentUploads\<close>, \<^verbatim>\<open>createErrorEmbed\<close> logs the message and changes nothing else
  but the count of blot objects created: no blot is put in and none is replaced. The error
  embed is inserted at the index of the last selection when the key is \<^verbatim>\<open>null\<close>.
\<close>

theorem late_error_is_only_logged:
  assumes "currentUploads s k = None"
  shows "createErrorEmbed (Some k) e s =
           s\<lparr>errorLog := errorLog s @ [message e], nextBlot := Suc (nextBlot s)\<rparr>
       \<and> createErrorEmbed None e s =
           s\<lparr>errorLog := errorLog s @ [message e],
             scroll := take (index (lastSelection s)) (scroll s)
                       @ (nextBlot s, EmbedError [e])
                       # drop (index (lastSelection s)) (scroll s),
             nextBlot := Suc (nextBlot s)\<rparr>"
  using assms
  by (simp add: createErrorEmbed_absent createErrorEmbed_null insertEmbed_def logError_def)

theorem late_error_is_only_logged_witness:
  "currentUploads (run [Submit ''a'', BlotDeleted 0] initial) (UrlKey ''a'') = None
   \<and> errorLog (createErrorEmbed (Some (UrlKey ''a'')) (new_Error ''boom'')
        (run [Submit ''a'', BlotDeleted 0] initial)) = [''boom'']
   \<and> scroll (createErrorEmbed None (new_Error ''boom'')
        (run [Submit ''a'', BlotDeleted 0] initial)) = [(1, EmbedError [new_Error ''boom''])]"
  using late_error_is_only_logged [of "run [Submit ''a'', BlotDeleted 0] initial" "UrlKey ''a''"
      "new_Error ''boom''", unfolded run_submit_deleted]
  unfolding run_submit_deleted by (simp add: new_Error_def)

subsection \<open>A success that arrives after its placeholder was deleted\<close>

text \<open>
  Claim C4. When the key is no longer in \<^verbatim>\<open>currentUploads\<close> (the delete callback of its
  placeholder has run), a success for that key changes nothing but the count of blot
  objects created: \<^verbatim>\<open>onImageUploadSuccess\<close> for a file key, and \<^verbatim>\<open>createSiteEmbed\<close>,
  \<^verbatim>\<open>createExternalImageEmbed\<close> and \<^verbatim>\<open>createVideoEmbed\<close> for the URL of their scrape
  result, each return the state they were given but for the discarded result blot. So the
  document is as it was, with no blot put in and none replaced, the key is still absent,
  and none of them can throw, since they return a state and not a \<open>result\<close>.
\<close>

theorem late_success_is_discarded:
  assumes "currentUploads s k = None"
  shows "(k = FileKey file \<longrightarrow>
            onImageUploadSuccess file res s = s\<lparr>nextBlot := Suc (nextBlot s)\<rparr>)
       \<and> (k = UrlKey (url d) \<longrightarrow>
            createSiteEmbed d s = s\<lparr>nextBlot := Suc (nextBlot s)\<rparr>
          \<and> createExternalImageEmbed d s = s\<lparr>nextBlot := Suc (nextBlot s)\<rparr>
          \<and> createVideoEmbed d s = s\<lparr>nextBlot := Suc (nextBlot s)\<rparr>)"
  using assms
  by (auto simp: onImageUploadSuccess_resolved createSiteEmbed_resolved
        createExternalImageEmbed_resolved createVideoEmbed_resolved resolved_absent)

theorem late_success_is_discarded_witness:
  "currentUploads (run [UploadStart 3, BlotDeleted 0] initial) (FileKey 3) = None
   \<and> scroll (onImageUploadSuccess 3 \<lparr>data_url = ''/uploads/cat.png''\<rparr>
        (run [UploadStart 3, BlotDeleted 0] initial)) = []
   \<and> currentUploads (onImageUploadSuccess 3 \<lparr>data_url = ''/uploads/cat.png''\<rparr>
        (run [UploadStart 3, BlotDeleted 0] initial)) (FileKey 3) = None"
  using late_success_is_discarded [of "run [UploadStart 3, BlotDeleted 0] initial" "FileKey 3" 3
      "\<lparr>data_url = ''/uploads/cat.png''\<rparr>", unfolded run_upload_deleted]
  unfolding run_upload_deleted by simp

subsection \<open>The message of a failed scrape\<close>

text \<open>
  The claim (C5) fails for a failure whose \<^verbatim>\<open>response.data.message\<close> is the empty
  string: the empty string is falsy, the test for the message fails, and the error embed
  holds the rejection itself and not the server's message.
\<close>

theorem empty_server_message_counterexample:
  "scroll (scrapeMedia_catch ''a''
      \<lparr>message = ''Request failed with status code 500'',
       response = Some \<lparr>failure_data = Some \<lparr>failure_message = Some ''''\<rparr>\<rparr>\<rparr>
      (stateOf (scrapeMedia ''a'' initial)))
   = [(1, EmbedError
        [\<lparr>message = ''Request failed with status code 500'',
          response = Some \<lparr>failure_data = Some \<lparr>failure_message = Some ''''\<rparr>\<rparr>\<rparr>])]"
  unfolding submitted_initial
  by (simp add: scrapeMedia_catch_def responseMessage_def createErrorEmbed_def logError_def
        Parchment_create_def replaceWith_def)

text \<open>
  Claim C5, amended. For a failure whose \<^verbatim>\<open>response.data.message\<close> is a string that is
  not empty, \<^verbatim>\<open>scrapeMedia\<close> calls \<^verbatim>\<open>createErrorEmbed\<close> with the submitted URL and a
  new error: its message is ``There was an error processing that embed link.'' when the
  server's message starts with ``Failed to load URL'', and the server's message otherwise.
  That message is logged, the URL is deleted from \<^verbatim>\<open>currentUploads\<close>, and the placeholder
  stored under the URL is replaced by an error embed holding the new error.
\<close>

theorem scrape_failure_message:
  assumes "response err = Some rs" and "failure_data rs = Some d"
    and "failure_message d = Some m" and "m \<noteq> []"
  shows "(let e = new_Error (if prefix ''Failed to load URL'' m
                             then ''There was an error processing that embed link.''
                             else m)
          in scrapeMedia_catch u err s = createErrorEmbed (Some (UrlKey u)) e s
           \<and> errorLog (scrapeMedia_catch u err s) = errorLog s @ [message e]
           \<and> currentUploads (scrapeMedia_catch u err s) = (currentUploads s)(UrlKey u := None)
           \<and> (\<forall>n i. wellFormed s \<and> currentUploads s (UrlKey u) = Some n
                  \<and> i < length (scroll s) \<and> fst (scroll s ! i) = n \<longrightarrow>
                scroll (scrapeMedia_catch u err s) = (scroll s)[i := (nextBlot s, EmbedError [e])]))"
proof -
  define e where "e = new_Error (if prefix ''Failed to load URL'' m
                             then ''There was an error processing that embed link.''
                             else m)"
  have r: "responseMessage err = Some m"
    using assms by (simp add: responseMessage_def)
  have eq: "scrapeMedia_catch u err s = createErrorEmbed (Some (UrlKey u)) e s"
    by (simp add: scrapeMedia_catch_def r e_def t_def)
  show ?thesis
    unfolding Let_def e_def [symmetric] eq
    using createErrorEmbed_logs [of "Some (UrlKey u)" e s]
      createErrorEmbed_deletes [of "UrlKey u" e s]
      createErrorEmbed_present [of s "UrlKey u" _ _ e]
    by auto
qed

theorem scrape_failure_message_witness:
  "response \<lparr>message = ''Request failed with status code 500'',
       response = Some \<lparr>failure_data = Some \<lparr>failure_message = Some ''Failed to load URL: x''\<rparr>\<rparr>\<rparr>
     = Some \<lparr>failure_data = Some \<lparr>failure_message = Some ''Failed to load URL: x''\<rparr>\<rparr>
   \<and> failure_data \<lparr>failure_data = Some \<lparr>failure_message = Some ''Failed to load URL: x''\<rparr>\<rparr>
     = Some \<lparr>failure_message = Some ''Failed to load URL: x''\<rparr>
   \<and> failure_message \<lparr>failure_message = Some ''Failed to load URL: x''\<rparr>
     = Some ''Failed to load URL: x''
   \<and> ''Failed to load URL: x'' \<noteq> []
   \<and> scroll (scrapeMedia_catch ''a''
        \<lparr>message = ''Request failed with status code 500'',
         response = Some \<lparr>failure_data = Some \<lparr>failure_message = Some ''Failed to load URL: x''\<rparr>\<rparr>\<rparr>
        (stateOf (scrapeMedia ''a'' initial)))
     = [(1, EmbedError [new_Error ''There was an error processing that embed link.''])]"
proof -
  let ?s = "stateOf (scrapeMedia ''a'' initial)"
  let ?d = "\<lparr>failure_message = Some ''Failed to load URL: x''\<rparr>"
  let ?rs = "\<lparr>failure_data = Some ?d\<rparr>"
  let ?err = "\<lparr>message = ''Request failed with status code 500'', response = Some ?rs\<rparr>"
  let ?e = "new_Error ''There was an error processing that embed link.''"
  have h1: "response ?err = Some ?rs" and h2: "failure_data ?rs = Some ?d"
    and h3: "failure_message ?d = Some ''Failed to load URL: x''"
    and h4: "''Failed to load URL: x'' \<noteq> []"
    by simp_all
  have p: "prefix ''Failed to load URL'' ''Failed to load URL: x''"
    by simp
  have wf: "wellFormed ?s"
    unfolding scrapeMedia_def using initial_invariants(1) by (rule createLoadingEmbed_wellFormed)
  have k: "currentUploads ?s (UrlKey ''a'') = Some 0"
    and i: "0 < length (scroll ?s)" and n: "fst (scroll ?s ! 0) = 0"
    unfolding submitted_initial by simp_all
  have "\<forall>n i. wellFormed ?s \<and> currentUploads ?s (UrlKey ''a'') = Some n
                  \<and> i < length (scroll ?s) \<and> fst (scroll ?s ! i) = n \<longrightarrow>
                scroll (scrapeMedia_catch ''a'' ?err ?s) = (scroll ?s)[i := (nextBlot ?s, EmbedError [?e])]"
    using scrape_failure_message [OF h1 h2 h3 h4, of "''a''" ?s]
    unfolding Let_def if_P [OF p] by blast
  then have "scroll (scrapeMedia_catch ''a'' ?err ?s) = (scroll ?s)[0 := (nextBlot ?s, EmbedError [?e])]"
    using wf k i n by blast
  then show ?thesis
    using h1 h2 h3 h4 unfolding submitted_initial by simp
qed

subsection \<open>A response of an unknown type\<close>

text \<open>
  Claim C6. For a response whose type is neither \<^verbatim>\<open>site\<close> nor \<^verbatim>\<open>image\<close>,
  \<^verbatim>\<open>scrapeMedia\<close> calls \<^verbatim>\<open>createErrorEmbed\<close> with the submitted URL and an error whose
  message is ``That type of embed is not currently supported.''. The message is logged, the
  URL is deleted from \<^verbatim>\<open>currentUploads\<close>, the placeholder stored under the URL, if
  there is one, is replaced by an error embed holding that error, and no blot of any other
  kind enters the document.
\<close>

theorem unsupported_type_is_error:
  assumes "type (data r) \<noteq> ''site''" and "type (data r) \<noteq> ''image''"
  shows "scrapeMedia_then u r s =
           createErrorEmbed (Some (UrlKey u))
             (new_Error ''That type of embed is not currently supported.'') s
       \<and> errorLog (scrapeMedia_then u r s)
           = errorLog s @ [''That type of embed is not currently supported.'']
       \<and> currentUploads (scrapeMedia_then u r s) = (currentUploads s)(UrlKey u := None)
       \<and> (currentUploads s (UrlKey u) = None \<longrightarrow> scroll (scrapeMedia_then u r s) = scroll s)
       \<and> (\<forall>n i. wellFormed s \<and> currentUploads s (UrlKey u) = Some n
              \<and> i < length (scroll s) \<and> fst (scroll s ! i) = n \<longrightarrow>
            scroll (scrapeMedia_then u r s) =
              (scroll s)[i := (nextBlot s,
                 EmbedError [new_Error ''That type of embed is not currently supported.''])])
       \<and> (\<forall>x \<in> set (scroll (scrapeMedia_then u r s)).
            x \<in> set (scroll s)
            \<or> x = (nextBlot s,
                 EmbedError [new_Error ''That type of embed is not currently supported.'']))"
proof -
  let ?e = "new_Error ''That type of embed is not currently supported.''"
  have eq: "scrapeMedia_then u r s = createErrorEmbed (Some (UrlKey u)) ?e s"
    using assms by (simp add: scrapeMedia_then_def t_def)
  have m: "message ?e = ''That type of embed is not currently supported.''"
    by (simp add: new_Error_def)
  show ?thesis
    unfolding eq
    using createErrorEmbed_logs [of "Some (UrlKey u)" ?e s]
      createErrorEmbed_deletes [of "UrlKey u" ?e s]
      createErrorEmbed_absent [of s "UrlKey u" ?e]
      createErrorEmbed_present [of s "UrlKey u" _ _ ?e]
      createErrorEmbed_adds [of _ "Some (UrlKey u)" ?e s]
    by (auto simp: m)
qed

theorem unsupported_type_is_error_witness:
  "type (data \<lparr>data = \<lparr>attributes = [], type = ''unknown'', url = ''a'', body = ''text'',
           name = ''title'', photoUrl = ''a/p.png'', height = 0, width = 0\<rparr>\<rparr>) \<noteq> ''site''
   \<and> type (data \<lparr>data = \<lparr>attributes = [], type = ''unknown'', url = ''a'', body = ''text'',
           name = ''title'', photoUrl = ''a/p.png'', height = 0, width = 0\<rparr>\<rparr>) \<noteq> ''image''
   \<and> scroll (scrapeMedia_then ''a''
        \<lparr>data = \<lparr>attributes = [], type = ''unknown'', url = ''a'', body = ''text'',
           name = ''title'', photoUrl = ''a/p.png'', height = 0, width = 0\<rparr>\<rparr>
        (stateOf (scrapeMedia ''a'' initial)))
      = [(1, EmbedError [new_Error ''That type of embed is not currently supported.''])]"
proof -
  let ?s = "stateOf (scrapeMedia ''a'' initial)"
  let ?r = "\<lparr>data = \<lparr>attributes = [], type = ''unknown'', url = ''a'', body = ''text'',
           name = ''title'', photoUrl = ''a/p.png'', height = 0, width = 0\<rparr>\<rparr>"
  have h1: "type (data ?r) \<noteq> ''site''" and h2: "type (data ?r) \<noteq> ''image''"
    by simp_all
  have wf: "wellFormed ?s"
    unfolding scrapeMedia_def using initial_invariants(1) by (rule createLoadingEmbed_wellFormed)
  have k: "currentUploads ?s (UrlKey ''a'') = Some 0"
    and i: "0 < length (scroll ?s)" and n: "fst (scroll ?s ! 0) = 0"
    unfolding submitted_initial by simp_all
  have "\<forall>n i. wellFormed ?s \<and> currentUploads ?s (UrlKey ''a'') = Some n
              \<and> i < length (scroll ?s) \<and> fst (scroll ?s ! i) = n \<longrightarrow>
            scroll (scrapeMedia_then ''a'' ?r ?s) =
              (scroll ?s)[i := (nextBlot ?s,
                 EmbedError [new_Error ''That type of embed is not currently supported.''])]"
    using unsupported_type_is_error [OF h1 h2, of "''a''" ?s] by blast
  then have "scroll (scrapeMedia_then ''a'' ?r ?s) =
              (scroll ?s)[0 := (nextBlot ?s,
                 EmbedError [new_Error ''That type of embed is not currently supported.''])]"
    using wf k i n by blast
  then show ?thesis
    using h1 h2 unfolding submitted_initial by simp
qed

subsection \<open>What a scrape response puts into the document\<close>

text \<open>
  Claim C7. Let the URL of the response be a key of \<^verbatim>\<open>currentUploads\<close>, leading to the blot
  at position \<open>i\<close> of a well-formed document. For a response of type \<^verbatim>\<open>site\<close> the blot
  at \<open>i\<close> becomes a link embed whose value has the four fields \<^verbatim>\<open>url\<close>, \<^verbatim>\<open>name\<close>,
  \<^verbatim>\<open>linkImage\<close> and \<^verbatim>\<open>excerpt\<close>, taken from \<^verbatim>\<open>url\<close>, \<^verbatim>\<open>name\<close>, \<^verbatim>\<open>photoUrl\<close> and
  \<^verbatim>\<open>body\<close> of the response. For a response of type \<^verbatim>\<open>image\<close> it becomes an image embed
  whose \<^verbatim>\<open>url\<close> is the \<^verbatim>\<open>photoUrl\<close> of the response, not its \<^verbatim>\<open>url\<close>, and whose
  \<^verbatim>\<open>alt\<close> is its \<^verbatim>\<open>name\<close>. The rest of the document stays as it was.
\<close>

theorem scrape_success_fields:
  assumes "wellFormed s" and "currentUploads s (UrlKey (url (data r))) = Some n"
    and "i < length (scroll s)" and "fst (scroll s ! i) = n"
  shows "(type (data r) = ''site'' \<longrightarrow>
            scroll (scrapeMedia_then u r s) =
              (scroll s)[i := (nextBlot s,
                 EmbedLink (url (data r)) (name (data r)) (photoUrl (data r)) (body (data r)))]
          \<and> link_url (snd (scroll (scrapeMedia_then u r s) ! i)) = url (data r)
          \<and> link_name (snd (scroll (scrapeMedia_then u r s) ! i)) = name (data r)
          \<and> linkImage (snd (scroll (scrapeMedia_then u r s) ! i)) = photoUrl (data r)
          \<and> excerpt (snd (scroll (scrapeMedia_then u r s) ! i)) = body (data r))
       \<and> (type (data r) = ''image'' \<longrightarrow>
            scroll (scrapeMedia_then u r s) =
              (scroll s)[i := (nextBlot s, EmbedImage (photoUrl (data r)) (Some (name (data r))))]
          \<and> image_url (snd (scroll (scrapeMedia_then u r s) ! i)) = photoUrl (data r)
          \<and> alt (snd (scroll (scrapeMedia_then u r s) ! i)) = Some (name (data r)))"
  using assms(3) resolved_present [OF assms, of "EmbedLink (url (data r)) (name (data r)) (photoUrl (data r)) (body (data r))"]
    resolved_present [OF assms, of "EmbedImage (photoUrl (data r)) (Some (name (data r)))"]
  by (simp add: scrapeMedia_then_def createSiteEmbed_resolved createExternalImageEmbed_resolved)

theorem scrape_success_fields_witness:
  "wellFormed (stateOf (scrapeMedia ''a'' initial))
   \<and> currentUploads (stateOf (scrapeMedia ''a'' initial)) (UrlKey ''a'') = Some 0
   \<and> (0::nat) < length (scroll (stateOf (scrapeMedia ''a'' initial)))
   \<and> fst (scroll (stateOf (scrapeMedia ''a'' initial)) ! 0) = 0
   \<and> scroll (scrapeMedia_then ''a''
        \<lparr>data = \<lparr>attributes = [], type = ''image'', url = ''a'', body = ''text'',
           name = ''title'', photoUrl = ''a/p.png'', height = 0, width = 0\<rparr>\<rparr>
        (stateOf (scrapeMedia ''a'' initial)))
      = [(1, EmbedImage ''a/p.png'' (Some ''title''))]"
proof -
  let ?s = "stateOf (scrapeMedia ''a'' initial)"
  let ?r = "\<lparr>data = \<lparr>attributes = [], type = ''image'', url = ''a'', body = ''text'',
           name = ''title'', photoUrl = ''a/p.png'', height = 0, width = 0\<rparr>\<rparr>"
  have wf: "wellFormed ?s"
    unfolding scrapeMedia_def using initial_invariants(1) by (rule createLoadingEmbed_wellFormed)
  have k: "currentUploads ?s (UrlKey (url (data ?r))) = Some 0"
    and i: "0 < length (scroll ?s)" and n: "fst (scroll ?s ! 0) = 0"
    unfolding submitted_initial by simp_all
  show ?thesis
    using scrape_success_fields [OF wf k i n, of "''a''"] wf k i n
    unfolding submitted_initial by simp
qed

subsection \<open>The same key submitted twice\<close>

text \<open>
  Claim C8. From a well-formed state with a sound registry and the last selection inside the
  document, \<^verbatim>\<open>createLoadingEmbed\<close> called twice with the same key returns both times.
  After the first call the key leads to the first placeholder; after the second it leads to
  the second placeholder only: a map holds one blot per key and the second \<^verbatim>\<open>set\<close>
  overwrites the first. Both placeholders are in the document, no key leads to the first
  one any more, and whatever happens later, short of the first placeholder being deleted
  from outside, it stays in the document as a loading blot: nothing resolves it.
\<close>

theorem duplicate_submission_last_write_wins:
  assumes wf: "wellFormed s" and snd: "registrySound s"
    and i: "index (lastSelection s) \<le> length (scroll s)"
  shows "\<exists>s1 s2. createLoadingEmbed k s = Inr s1 \<and> createLoadingEmbed k s1 = Inr s2
     \<and> currentUploads s1 k = Some (nextBlot s)
     \<and> currentUploads s2 k = Some (Suc (nextBlot s))
     \<and> (nextBlot s, EmbedLoading (Some k)) \<in> set (scroll s2)
     \<and> (Suc (nextBlot s), EmbedLoading (Some k)) \<in> set (scroll s2)
     \<and> (\<forall>k'. currentUploads s2 k' \<noteq> Some (nextBlot s))
     \<and> (\<forall>es. BlotDeleted (nextBlot s) \<notin> set es \<longrightarrow>
            (nextBlot s, EmbedLoading (Some k)) \<in> set (scroll (run es s2)))"
proof -
  obtain s1 s2 where c: "createLoadingEmbed k s = Inr s1" "createLoadingEmbed k s1 = Inr s2"
    and wf2: "wellFormed s2"
    and u1: "currentUploads s1 = (currentUploads s)(k \<mapsto> nextBlot s)"
    and u2: "currentUploads s2 = (currentUploads s)(k \<mapsto> Suc (nextBlot s))"
    and sc: "scroll s2 = take (index (lastSelection s)) (scroll s)
          @ (Suc (nextBlot s), EmbedLoading (Some k))
          # (nextBlot s, EmbedLoading (Some k))
          # drop (index (lastSelection s)) (scroll s)"
    using createLoadingEmbed_twice [OF wf i, of k] by blast
  have first: "(nextBlot s, EmbedLoading (Some k)) \<in> set (scroll s2)"
    and second: "(Suc (nextBlot s), EmbedLoading (Some k)) \<in> set (scroll s2)"
    by (simp_all add: sc)
  have untracked: "\<forall>k'. currentUploads s2 k' \<noteq> Some (nextBlot s)"
  proof (intro allI notI)
    fix k' assume a: "currentUploads s2 k' = Some (nextBlot s)"
    then have "currentUploads s k' = Some (nextBlot s)"
      by (simp add: u2 split: if_splits)
    then have "(nextBlot s, EmbedLoading (Some k')) \<in> set (scroll s)"
      using snd by (rule registrySoundD [rotated])
    then show False
      using wellFormedD [OF wf] by blast
  qed
  have "\<forall>es. BlotDeleted (nextBlot s) \<notin> set es \<longrightarrow>
            (nextBlot s, EmbedLoading (Some k)) \<in> set (scroll (run es s2))"
    using run_untracked [OF wf2 first untracked] by blast
  then show ?thesis
    using c first second untracked by (simp add: u1 u2)
qed

theorem duplicate_submission_last_write_wins_witness:
  "wellFormed initial \<and> registrySound initial
   \<and> index (lastSelection initial) \<le> length (scroll initial)
   \<and> currentUploads (run [Submit ''a'', Submit ''a''] initial) (UrlKey ''a'') = Some 1
   \<and> (0, EmbedLoading (Some (UrlKey ''a'')))
        \<in> set (scroll (run [Submit ''a'', Submit ''a'', ScrapeResolved ''a'' \<lparr>data = \<lparr>attributes = [], type = ''site'', url = ''a'', body = ''text'', name = ''title'', photoUrl = ''a/p.png'', height = 0, width = 0\<rparr>\<rparr>] initial))"
proof -
  have h: "index (lastSelection initial) \<le> length (scroll initial)"
    by (simp add: initial_def)
  obtain s1 s2 where c: "createLoadingEmbed (UrlKey ''a'') initial = Inr s1"
      "createLoadingEmbed (UrlKey ''a'') s1 = Inr s2"
    and r: "currentUploads s2 (UrlKey ''a'') = Some (Suc (nextBlot initial))"
    and o: "\<forall>es. BlotDeleted (nextBlot initial) \<notin> set es \<longrightarrow>
            (nextBlot initial, EmbedLoading (Some (UrlKey ''a''))) \<in> set (scroll (run es s2))"
    using duplicate_submission_last_write_wins [OF initial_invariants(1,2) h, of "UrlKey ''a''"]
    by blast
  have n: "nextBlot initial = 0"
    by (simp add: initial_def)
  have s2: "run [Submit ''a'', Submit ''a''] initial = s2"
    using c by (simp add: scrapeMedia_def)
  have "(0, EmbedLoading (Some (UrlKey ''a'')))
          \<in> set (scroll (run [ScrapeResolved ''a'' \<lparr>data = \<lparr>attributes = [], type = ''site'', url = ''a'', body = ''text'', name = ''title'', photoUrl = ''a/p.png'', height = 0, width = 0\<rparr>\<rparr>] s2))"
    using o [rule_format, of "[ScrapeResolved ''a'' \<lparr>data = \<lparr>attributes = [], type = ''site'', url = ''a'', body = ''text'', name = ''title'', photoUrl = ''a/p.png'', height = 0, width = 0\<rparr>\<rparr>]"] n by simp
  then have "(0, EmbedLoading (Some (UrlKey ''a'')))
        \<in> set (scroll (run [Submit ''a'', Submit ''a'', ScrapeResolved ''a'' \<lparr>data = \<lparr>attributes = [], type = ''site'', url = ''a'', body = ''text'', name = ''title'', photoUrl = ''a/p.png'', height = 0, width = 0\<rparr>\<rparr>] initial))"
    using c by (simp add: scrapeMedia_def)
  then show ?thesis
    using initial_invariants(1,2) h r n s2 by simp
qed

subsection \<open>The failure handler of the other revision\<close>

text \<open>
  Claim C9. \<^verbatim>\<open>createErrorEmbed\<close> logs the message before anything else
  (\<open>createErrorEmbed_logs\<close>) and returns for every state and every key. The handler
  \<^verbatim>\<open>onImageUploadFailure\<close> does not: when the placeholder of the file was deleted before
  the upload failed, it logs the message and then throws, on the second, unguarded
  \<^verbatim>\<open>loadingBlot.replaceWith(errorBlot)\<close>.
\<close>

theorem upload_failure_after_deletion_throws:
  "onImageUploadFailure (Some 3) (new_Error ''upload failed'')
     (run [UploadStart 3, BlotDeleted 0] initial) =
   Inl (TypeError,
     \<lparr>scroll = [], selection = Some \<lparr>index = 1, length_r = 0\<rparr>, nextBlot = 2,
      errorLog = [''upload failed''], currentUploads = Map.empty,
      lastSelection = \<lparr>index = 0, length_r = 0\<rparr>, pauseSelectionTracking = False\<rparr>)"
  unfolding run_upload_deleted
  by (simp add: onImageUploadFailure_def logError_def Parchment_create_def new_Error_def)

subsection \<open>Deleting the orphaned placeholder\<close>

text \<open>
  Claim C10. The delete callback removes whatever is stored under its key, without looking
  at the blot stored there. So after two placeholders were created under one key, deleting
  the first of them from outside removes the key from \<^verbatim>\<open>currentUploads\<close>, although the
  key led to the second placeholder, and the second placeholder is still in the document
  as a loading blot.
\<close>

theorem orphan_deletion_untracks_live_placeholder:
  assumes wf: "wellFormed s" and i: "index (lastSelection s) \<le> length (scroll s)"
  shows "\<exists>s1 s2. createLoadingEmbed k s = Inr s1 \<and> createLoadingEmbed k s1 = Inr s2
     \<and> currentUploads s2 k = Some (Suc (nextBlot s))
     \<and> currentUploads (deleteBlot (nextBlot s) s2) k = None
     \<and> (Suc (nextBlot s), EmbedLoading (Some k)) \<in> set (scroll (deleteBlot (nextBlot s) s2))
     \<and> (nextBlot s, EmbedLoading (Some k)) \<notin> set (scroll (deleteBlot (nextBlot s) s2))"
proof -
  obtain s1 s2 where c: "createLoadingEmbed k s = Inr s1" "createLoadingEmbed k s1 = Inr s2"
    and wf2: "wellFormed s2"
    and u2: "currentUploads s2 = (currentUploads s)(k \<mapsto> Suc (nextBlot s))"
    and sc: "scroll s2 = take (index (lastSelection s)) (scroll s)
          @ (Suc (nextBlot s), EmbedLoading (Some k))
          # (nextBlot s, EmbedLoading (Some k))
          # drop (index (lastSelection s)) (scroll s)"
    using createLoadingEmbed_twice [OF wf i, of k] by blast
  have first: "(nextBlot s, EmbedLoading (Some k)) \<in> set (scroll s2)"
    by (simp add: sc)
  have second: "(Suc (nextBlot s), EmbedLoading (Some k)) \<in> set (scroll s2)"
    by (simp add: sc)
  note d = deleteBlot_placeholder [OF wf2 first]
  have "currentUploads (deleteBlot (nextBlot s) s2) k = None"
    by (simp add: d)
  moreover have "(Suc (nextBlot s), EmbedLoading (Some k)) \<in> set (scroll (deleteBlot (nextBlot s) s2))"
    using second by (simp add: scroll_deleteBlot)
  moreover have "(nextBlot s, EmbedLoading (Some k)) \<notin> set (scroll (deleteBlot (nextBlot s) s2))"
    by (simp add: scroll_deleteBlot)
  ultimately show ?thesis
    using c by (simp add: u2)
qed

theorem orphan_deletion_untracks_live_placeholder_witness:
  "wellFormed initial \<and> index (lastSelection initial) \<le> length (scroll initial)
   \<and> currentUploads (run [Submit ''a'', Submit ''a''] initial) (UrlKey ''a'') = Some 1
   \<and> currentUploads (run [Submit ''a'', Submit ''a'', BlotDeleted 0] initial) (UrlKey ''a'') = None
   \<and> scroll (run [Submit ''a'', Submit ''a'', BlotDeleted 0] initial)
        = [(1, EmbedLoading (Some (UrlKey ''a'')))]"
proof -
  have h: "index (lastSelection initial) \<le> length (scroll initial)"
    by (simp add: initial_def)
  obtain s1 s2 where c: "createLoadingEmbed (UrlKey ''a'') initial = Inr s1"
      "createLoadingEmbed (UrlKey ''a'') s1 = Inr s2"
    and r: "currentUploads s2 (UrlKey ''a'') = Some (Suc (nextBlot initial))"
    and a: "currentUploads (deleteBlot (nextBlot initial) s2) (UrlKey ''a'') = None"
    using orphan_deletion_untracks_live_placeholder [OF initial_invariants(1) h, of "UrlKey ''a''"]
    by blast
  have n: "nextBlot initial = 0"
    by (simp add: initial_def)
  have s1: "s1 = \<lparr>scroll = [(0, EmbedLoading (Some (UrlKey ''a'')))],
          selection = Some \<lparr>index = 1, length_r = 0\<rparr>, nextBlot = 1, errorLog = [],
          currentUploads = [UrlKey ''a'' \<mapsto> 0], lastSelection = \<lparr>index = 0, length_r = 0\<rparr>,
          pauseSelectionTracking = False\<rparr>"
    using c(1) unfolding submit_initial by simp
  have s2: "s2 = \<lparr>scroll = [(1, EmbedLoading (Some (UrlKey ''a''))), (0, EmbedLoading (Some (UrlKey ''a'')))],
          selection = Some \<lparr>index = 1, length_r = 0\<rparr>, nextBlot = 2, errorLog = [],
          currentUploads = [UrlKey ''a'' \<mapsto> 1], lastSelection = \<lparr>index = 0, length_r = 0\<rparr>,
          pauseSelectionTracking = False\<rparr>"
    using c(2) unfolding s1 submit_twice_initial by simp
  have "scroll (deleteBlot 0 s2) = [(1, EmbedLoading (Some (UrlKey ''a'')))]"
    by (simp add: s2 scroll_deleteBlot)
  then show ?thesis
    using initial_invariants(1) h r a n c by (simp add: scrapeMedia_def)
qed

end
